theory Spec2Isabelle
  imports Complex_Main
begin

section \<open>Values, errors and printed messages\<close>

text \<open>
  The exceptions that can leave the functions of \<^verbatim>\<open>filter.py\<close>. None of them is
  raised by a \<^verbatim>\<open>raise\<close> statement: each comes from an operation the code performs
  (a division, a subscript, a library call).
\<close>

datatype py_error =
  ZeroDivisionError | TypeError | RuntimeError | IndexError | AttributeError | OSError

text \<open>
  A torch scalar: a finite value, given as the real number it stands for, or one of
  the non-finite values, which the code never checks for. The logits and their
  difference are idealised as reals; the roundings of the threshold transform are
  modelled below.
\<close>

datatype tfloat = Fin real | PosInf | NegInf | NaN

text \<open>The lines the code prints, by content.\<close>

datatype message =
  Attempt_limit "int option"
  | Saved_checkpoint string
  | Image_missing string
  | Image_corrupted string

text \<open>Python truthiness of an optional integer argument (\<^verbatim>\<open>if max_steps:\<close>).\<close>

definition truthy :: "int option \<Rightarrow> bool" where
  "truthy v = (case v of None \<Rightarrow> False | Some n \<Rightarrow> n \<noteq> 0)"

text \<open>\<^verbatim>\<open>difference >= req_logit_diff\<close>: a comparison with NaN is false.\<close>

fun tensor_ge :: "real \<Rightarrow> tfloat \<Rightarrow> bool" where
  "tensor_ge d (Fin r) = (r \<le> d)"
| "tensor_ge d PosInf = False"
| "tensor_ge d NegInf = True"
| "tensor_ge d NaN = False"

section \<open>The encoded input\<close>

text \<open>
  The mapping the vision processor returns, for one sample with one image: the token
  ids, the attention mask, the cross-attention mask (one unit of four tile flags per
  position) and the pixel data, which the classifier never touches.
\<close>

record encoded_input =
  input_ids :: "nat list"
  attention_mask :: "nat list"
  cross_attention_mask :: "nat list list"
  pixel_values :: "nat list"

text \<open>What a classifier call leaves behind: the value returned, the input as mutated,
  the number of forward passes made and the lines printed.\<close>

record 'i outcome =
  prediction :: bool
  final_input :: 'i
  forward_passes :: nat
  printed :: "message list"

section \<open>The top-k readiness check\<close>

text \<open>
  \<^verbatim>\<open>torch.topk(logits, topk, dim=-1).indices[0].tolist()\<close>: the indices of the
  \<open>k\<close> largest logits, largest first. Ties go to the lower index here (torch leaves
  their order open). \<open>k = None\<close> is a TypeError, a \<open>k\<close> that is negative or larger
  than the vocabulary a RuntimeError.
\<close>

definition argsort_desc :: "real list \<Rightarrow> nat list" where
  "argsort_desc logits = map fst (sort_key (\<lambda>p. - snd p) (enumerate 0 logits))"

definition topk_ids :: "real list \<Rightarrow> int option \<Rightarrow> py_error + nat list" where
  "topk_ids logits topk =
     (case topk of
        None \<Rightarrow> Inl TypeError
      | Some k \<Rightarrow>
          if k < 0 \<or> int (length logits) < k then Inl RuntimeError
          else Inr (take (nat k) (argsort_desc logits)))"

section \<open>The confidence classifier\<close>

text \<open>
  Lines 153 to 157 (and 190 to 194): the two target logits, their difference and the
  comparison. A token id outside the vocabulary is an IndexError.
\<close>

definition classification :: "real list \<Rightarrow> tfloat \<Rightarrow> nat \<Rightarrow> nat \<Rightarrow> py_error + bool" where
  "classification logits req id_1 id_0 =
     (if id_1 < length logits \<and> id_0 < length logits
      then Inr (tensor_ge (logits ! id_1 - logits ! id_0) req)
      else Inl IndexError)"

text \<open>Lines 142 to 148: the most likely token is appended and the masks follow.\<close>

definition append_token :: "encoded_input \<Rightarrow> nat \<Rightarrow> encoded_input" where
  "append_token inp t =
     inp\<lparr>input_ids := input_ids inp @ [t],
         attention_mask := attention_mask inp @ [1],
         cross_attention_mask := cross_attention_mask inp @ [[1, 1, 0, 0]]\<rparr>"

text \<open>
  The loop of \<^verbatim>\<open>vision_classify\<close>, by the number of iterations left; \<open>n\<close> counts
  the forward passes made so far. Running out of iterations is the code after the loop.
\<close>

fun vision_steps ::
  "(encoded_input \<Rightarrow> real list) \<Rightarrow> tfloat \<Rightarrow> nat \<Rightarrow> nat \<Rightarrow> int option \<Rightarrow> int option \<Rightarrow>
   nat \<Rightarrow> encoded_input \<Rightarrow> nat \<Rightarrow> py_error + encoded_input outcome" where
  "vision_steps model req id_1 id_0 max_steps topk 0 inp n =
     Inr \<lparr>prediction = True, final_input = inp, forward_passes = n,
          printed = [Attempt_limit max_steps]\<rparr>"
| "vision_steps model req id_1 id_0 max_steps topk (Suc s) inp n =
     (let logits = model inp;
          decide = (case classification logits req id_1 id_0 of
                      Inl e \<Rightarrow> Inl e
                    | Inr p \<Rightarrow> Inr \<lparr>prediction = p, final_input = inp,
                                    forward_passes = Suc n, printed = []\<rparr>)
      in if truthy max_steps then
           (case topk_ids logits topk of
              Inl e \<Rightarrow> Inl e
            | Inr ids \<Rightarrow>
                if id_1 \<notin> set ids \<and> id_0 \<notin> set ids then
                  (case ids of
                     [] \<Rightarrow> Inl IndexError
                   | t # _ \<Rightarrow>
                       vision_steps model req id_1 id_0 max_steps topk s
                         (append_token inp t) (Suc n))
                else decide)
         else decide)"

definition vision_classify ::
  "(encoded_input \<Rightarrow> real list) \<Rightarrow> encoded_input \<Rightarrow> tfloat \<Rightarrow> nat \<Rightarrow> nat \<Rightarrow>
   int option \<Rightarrow> int option \<Rightarrow> py_error + encoded_input outcome" where
  "vision_classify model inp req id_1 id_0 max_steps topk =
     vision_steps model req id_1 id_0 max_steps topk
       (case max_steps of None \<Rightarrow> 1 | Some m \<Rightarrow> nat m) inp 0"

text \<open>
  In text mode the input is the bare tensor of token ids that
  \<^verbatim>\<open>apply_chat_template(..., return_tensors="pt")\<close> returns, and
  \<^verbatim>\<open>input["input_ids"]\<close> subscripts that tensor with a string, which torch refuses.
\<close>

definition tensor_subscript_str :: "nat list \<Rightarrow> string \<Rightarrow> py_error + nat list" where
  "tensor_subscript_str tensor key = Inl IndexError"

fun text_steps ::
  "(nat list \<Rightarrow> real list) \<Rightarrow> tfloat \<Rightarrow> nat \<Rightarrow> nat \<Rightarrow> int option \<Rightarrow> int option \<Rightarrow>
   nat \<Rightarrow> nat list \<Rightarrow> nat \<Rightarrow> py_error + nat list outcome" where
  "text_steps model req id_1 id_0 max_steps topk 0 inp n =
     Inr \<lparr>prediction = True, final_input = inp, forward_passes = n,
          printed = [Attempt_limit max_steps]\<rparr>"
| "text_steps model req id_1 id_0 max_steps topk (Suc s) inp n =
     (let logits = model inp;
          decide = (case classification logits req id_1 id_0 of
                      Inl e \<Rightarrow> Inl e
                    | Inr p \<Rightarrow> Inr \<lparr>prediction = p, final_input = inp,
                                    forward_passes = Suc n, printed = []\<rparr>)
      in if truthy max_steps then
           (case topk_ids logits topk of
              Inl e \<Rightarrow> Inl e
            | Inr ids \<Rightarrow>
                if id_1 \<notin> set ids \<and> id_0 \<notin> set ids then
                  (case ids of
                     [] \<Rightarrow> Inl IndexError
                   | t # _ \<Rightarrow>
                       (case tensor_subscript_str inp ''input_ids'' of
                          Inl e \<Rightarrow> Inl e
                        | Inr old_ids \<Rightarrow>
                            text_steps model req id_1 id_0 max_steps topk s
                              (old_ids @ [t]) (Suc n)))
                else decide)
         else decide)"

definition text_classify ::
  "(nat list \<Rightarrow> real list) \<Rightarrow> nat list \<Rightarrow> tfloat \<Rightarrow> nat \<Rightarrow> nat \<Rightarrow>
   int option \<Rightarrow> int option \<Rightarrow> py_error + nat list outcome" where
  "text_classify model inp req id_1 id_0 max_steps topk =
     text_steps model req id_1 id_0 max_steps topk
       (case max_steps of None \<Rightarrow> 1 | Some m \<Rightarrow> nat m) inp 0"

section \<open>The required logit difference\<close>

text \<open>
  Line 55 (and 101):
  \<^verbatim>\<open>req_logit_diff = torch.log(torch.tensor(threshold / (1 - threshold)))\<close>.
  Three roundings happen on the way. The subtraction and the division are Python's,
  on doubles, each rounded to the nearest double; \<^verbatim>\<open>torch.tensor\<close> then turns the
  ratio into a float32. Rounding to a binary format with \<open>m\<close> fraction bits and least
  exponent \<open>emin\<close> is to the nearest multiple of the unit in the last place of the
  binade of the value, ties to even; the unit never falls below \<open>2^(emin - m)\<close>, so
  that small values are rounded on the subnormal grid and the smallest become zero.
\<close>

definition round_half_even :: "real \<Rightarrow> int" where
  "round_half_even q =
     (let n = \<lfloor>q\<rfloor>; r = q - of_int n
      in if r < 1 / 2 then n else if 1 / 2 < r then n + 1 else if even n then n else n + 1)"

definition binade :: "int \<Rightarrow> real \<Rightarrow> int" where
  "binade emin x = max \<lfloor>log 2 \<bar>x\<bar>\<rfloor> emin"

definition ulp :: "nat \<Rightarrow> int \<Rightarrow> real \<Rightarrow> real" where
  "ulp m emin x = 2 powr (of_int (binade emin x) - of_nat m)"

definition round_binary :: "nat \<Rightarrow> int \<Rightarrow> real \<Rightarrow> real" where
  "round_binary m emin x = of_int (round_half_even (x / ulp m emin x)) * ulp m emin x"

text \<open>
  A double has 52 fraction bits and least exponent \<open>-1022\<close>, a float32 has 23 and
  \<open>-126\<close>. The thresholds of interest are finite doubles, and for them neither double
  operation of line 55 can overflow; the float32 conversion gives an infinity from
  \<open>2^128\<close> on. The sign of a zero is not kept: \<^verbatim>\<open>torch.log\<close> treats both zeros alike.
\<close>

definition float64_value :: "real \<Rightarrow> real" where
  "float64_value x = round_binary 52 (- 1022) x"

definition float32_value :: "real \<Rightarrow> real" where
  "float32_value x = round_binary 23 (- 126) x"

definition float32 :: "real \<Rightarrow> tfloat" where
  "float32 x =
     (if 2 ^ 128 \<le> float32_value x then PosInf
      else if float32_value x \<le> - (2 ^ 128) then NegInf
      else Fin (float32_value x))"

text \<open>
  \<^verbatim>\<open>torch.log\<close> on a float32 raises nothing: it gives \<open>-inf\<close> at a zero of either
  sign and NaN below zero. On a positive value it is taken as the natural logarithm
  rounded to float32.
\<close>

fun torch_log :: "tfloat \<Rightarrow> tfloat" where
  "torch_log (Fin x) = (if x < 0 then NaN else if x = 0 then NegInf else float32 (ln x))"
| "torch_log PosInf = PosInf"
| "torch_log NegInf = NaN"
| "torch_log NaN = NaN"

text \<open>
  The division is Python's and raises on a zero divisor, that is when the rounded
  difference \<open>1 - threshold\<close> is zero.
\<close>

definition req_logit_diff :: "real \<Rightarrow> py_error + tfloat" where
  "req_logit_diff t =
     (let divisor = float64_value (1 - t)
      in if divisor = 0 then Inl ZeroDivisionError
         else Inr (torch_log (float32 (float64_value (t / divisor)))))"

section \<open>The dataset, the collaborators and the arguments\<close>

text \<open>A dataset row: its columns by name, in order.\<close>

type_synonym row = "(string \<times> string) list"

definition getattr :: "row \<Rightarrow> string \<Rightarrow> py_error + string" where
  "getattr r col = (case map_of r col of None \<Rightarrow> Inl AttributeError | Some v \<Rightarrow> Inr v)"

text \<open>
  \<^verbatim>\<open>Image.open(path)\<close>: the image, FileNotFoundError, UnidentifiedImageError, or
  any other failure to open (the path is a directory, the file may not be read): an
  OSError that neither \<^verbatim>\<open>except\<close> clause catches.
\<close>

datatype open_result = Opened "nat list" | File_not_found | Unidentified_image | Open_failed

text \<open>
  What the drivers call outside \<^verbatim>\<open>filter.py\<close>: the model's forward pass (the logits
  of the last position), the tokenizer (token ids of a string), \<^verbatim>\<open>str.format\<close> with
  the caption, the chat template, the processor and the image files.
\<close>

record vision_env =
  v_model :: "encoded_input \<Rightarrow> real list"
  v_tokenize :: "string \<Rightarrow> nat list"
  v_format :: "string \<Rightarrow> string \<Rightarrow> string"
  v_chat_template :: "string \<Rightarrow> string"
  v_processor :: "nat list \<Rightarrow> string \<Rightarrow> encoded_input"
  v_image_open :: "string \<Rightarrow> open_result"

record text_env =
  t_model :: "nat list \<Rightarrow> real list"
  t_tokenize :: "string \<Rightarrow> nat list"
  t_format :: "string \<Rightarrow> string \<Rightarrow> string"
  t_chat_template :: "string \<Rightarrow> nat list"

text \<open>The parameters of \<^verbatim>\<open>text_filter\<close>, and those \<^verbatim>\<open>vision_filter\<close> adds.\<close>

record filter_args =
  metadata :: "row list"
  caption_column :: "string option"
  prompt :: string
  output_path :: string
  has_header :: bool
  delim :: string
  threshold :: real
  save_every :: "int option"
  max_steps :: "int option"
  topk :: "int option"

record vision_args = filter_args +
  image_column :: string
  keep_corrupted :: bool

text \<open>A file written by \<^verbatim>\<open>to_csv\<close>: separator, header flag and the rows.\<close>

record csv_file =
  csv_sep :: string
  csv_header :: bool
  csv_rows :: "row list"

text \<open>
  The driver's local variables (\<open>results\<close>, \<open>since_last_save\<close>,
  \<open>missing_or_corrupted\<close>) and what it does to the world: the files written, the
  lines printed, the classifier calls and the forward passes made.
\<close>

record run_state =
  results :: "bool list"
  since_last_save :: nat
  missing_or_corrupted :: nat
  saved_files :: "string \<rightharpoonup> csv_file"
  console :: "message list"
  classifier_calls :: nat
  model_calls :: nat

definition init_state :: run_state where
  "init_state =
     \<lparr>results = [], since_last_save = 0, missing_or_corrupted = 0,
      saved_files = Map.empty, console = [], classifier_calls = 0, model_calls = 0\<rparr>"

definition first_id :: "nat list \<Rightarrow> py_error + nat" where
  "first_id ids = (case ids of [] \<Rightarrow> Inl IndexError | t # _ \<Rightarrow> Inr t)"

section \<open>The drivers\<close>

text \<open>\<^verbatim>\<open>frame[mask]\<close> with a list of booleans: the rows whose flag is set.\<close>

definition boolean_mask :: "'a list \<Rightarrow> bool list \<Rightarrow> 'a list" where
  "boolean_mask rows flags = map fst (filter snd (zip rows flags))"

text \<open>Lines 63 to 67 (and 108 to 112): the safety save at the head of an iteration.\<close>

definition safety_save :: "'a filter_args_scheme \<Rightarrow> run_state \<Rightarrow> run_state" where
  "safety_save a st =
     (if (case save_every a of
            None \<Rightarrow> False
          | Some k \<Rightarrow> k \<noteq> 0 \<and> k \<le> int (since_last_save st))
      then st\<lparr>saved_files :=
                 (saved_files st)(output_path a \<mapsto>
                    \<lparr>csv_sep = delim a, csv_header = has_header a,
                     csv_rows = boolean_mask (take (length (results st)) (metadata a))
                                  (results st)\<rparr>),
               console := console st @ [Saved_checkpoint (output_path a)],
               since_last_save := 0\<rparr>
      else st)"

text \<open>
  Lines 71 to 73: the prompt of a row. With no caption column the template is used as
  it is.
\<close>

definition vision_prompt :: "vision_env \<Rightarrow> vision_args \<Rightarrow> row \<Rightarrow> py_error + string" where
  "vision_prompt env a r =
     (case (case caption_column a of
              None \<Rightarrow> Inr (prompt a)
            | Some c \<Rightarrow>
                if c = [] then Inr (prompt a)
                else (case getattr r c of
                        Inl e \<Rightarrow> Inl e
                      | Inr cap \<Rightarrow> Inr (v_format env (prompt a) cap))) of
        Inl e \<Rightarrow> Inl e
      | Inr formatted_prompt \<Rightarrow> Inr (v_chat_template env formatted_prompt))"

text \<open>
  Lines 71 to 88: what one row comes to. \<open>Inr (Inl msg)\<close> is a missing or corrupted
  image (with the line printed), \<open>Inr (Inr out)\<close> the classifier's outcome.
\<close>

definition vision_sample ::
  "vision_env \<Rightarrow> vision_args \<Rightarrow> tfloat \<Rightarrow> nat \<Rightarrow> nat \<Rightarrow> row \<Rightarrow>
   py_error + (message + encoded_input outcome)" where
  "vision_sample env a req true_token_id false_token_id r =
     (case vision_prompt env a r of
        Inl e \<Rightarrow> Inl e
      | Inr input_text \<Rightarrow>
          (case getattr r (image_column a) of
             Inl e \<Rightarrow> Inl e
           | Inr path \<Rightarrow>
               (case v_image_open env path of
                  File_not_found \<Rightarrow> Inr (Inl (Image_missing path))
                | Unidentified_image \<Rightarrow> Inr (Inl (Image_corrupted path))
                | Open_failed \<Rightarrow> Inl OSError
                | Opened input_image \<Rightarrow>
                    (case vision_classify (v_model env)
                            (v_processor env input_image input_text) req
                            true_token_id false_token_id (max_steps a) (topk a) of
                       Inl e \<Rightarrow> Inl e
                     | Inr out \<Rightarrow> Inr (Inr out)))))"

text \<open>One iteration of the loop of \<^verbatim>\<open>vision_filter\<close>.\<close>

definition vision_row ::
  "vision_env \<Rightarrow> vision_args \<Rightarrow> tfloat \<Rightarrow> nat \<Rightarrow> nat \<Rightarrow> row \<Rightarrow> run_state \<Rightarrow>
   py_error + run_state" where
  "vision_row env a req true_token_id false_token_id r st0 =
     (let st1 = safety_save a st0;
          st = st1\<lparr>since_last_save := since_last_save st1 + 1\<rparr>
      in case vision_sample env a req true_token_id false_token_id r of
           Inl e \<Rightarrow> Inl e
         | Inr (Inl msg) \<Rightarrow>
             Inr (st\<lparr>console := console st @ [msg],
                     missing_or_corrupted := missing_or_corrupted st + 1,
                     results := results st @ [keep_corrupted a]\<rparr>)
         | Inr (Inr out) \<Rightarrow>
             Inr (st\<lparr>console := console st @ printed out,
                     classifier_calls := classifier_calls st + 1,
                     model_calls := model_calls st + forward_passes out,
                     results := results st @ [prediction out]\<rparr>))"

fun vision_rows ::
  "vision_env \<Rightarrow> vision_args \<Rightarrow> tfloat \<Rightarrow> nat \<Rightarrow> nat \<Rightarrow> row list \<Rightarrow> run_state \<Rightarrow>
   py_error + run_state" where
  "vision_rows env a req true_token_id false_token_id [] st = Inr st"
| "vision_rows env a req true_token_id false_token_id (r # rs) st =
     (case vision_row env a req true_token_id false_token_id r st of
        Inl e \<Rightarrow> Inl e
      | Inr st' \<Rightarrow> vision_rows env a req true_token_id false_token_id rs st')"

text \<open>
  \<^verbatim>\<open>vision_filter\<close>: the threshold transform, the two token ids, then the loop.
  \<open>vision_filter_run\<close> is the final state, \<open>vision_filter\<close> the pair returned.
\<close>

definition vision_filter_run :: "vision_env \<Rightarrow> vision_args \<Rightarrow> py_error + run_state" where
  "vision_filter_run env a =
     (case req_logit_diff (threshold a) of
        Inl e \<Rightarrow> Inl e
      | Inr req \<Rightarrow>
          (case first_id (v_tokenize env ''1'') of
             Inl e \<Rightarrow> Inl e
           | Inr true_token_id \<Rightarrow>
               (case first_id (v_tokenize env ''0'') of
                  Inl e \<Rightarrow> Inl e
                | Inr false_token_id \<Rightarrow>
                    vision_rows env a req true_token_id false_token_id
                      (metadata a) init_state)))"

definition vision_filter :: "vision_env \<Rightarrow> vision_args \<Rightarrow> py_error + (bool list \<times> nat)" where
  "vision_filter env a =
     (case vision_filter_run env a of
        Inl e \<Rightarrow> Inl e
      | Inr st \<Rightarrow> Inr (results st, missing_or_corrupted st))"

text \<open>Lines 115 to 118: what one row comes to in text mode.\<close>

definition text_sample ::
  "text_env \<Rightarrow> filter_args \<Rightarrow> tfloat \<Rightarrow> nat \<Rightarrow> nat \<Rightarrow> row \<Rightarrow>
   py_error + nat list outcome" where
  "text_sample env a req true_token_id false_token_id r =
     (case caption_column a of
        None \<Rightarrow> Inl TypeError
      | Some c \<Rightarrow>
          (case getattr r c of
             Inl e \<Rightarrow> Inl e
           | Inr cap \<Rightarrow>
               text_classify (t_model env)
                 (t_chat_template env (t_format env (prompt a) cap)) req
                 true_token_id false_token_id (max_steps a) (topk a)))"

definition text_row ::
  "text_env \<Rightarrow> filter_args \<Rightarrow> tfloat \<Rightarrow> nat \<Rightarrow> nat \<Rightarrow> row \<Rightarrow> run_state \<Rightarrow>
   py_error + run_state" where
  "text_row env a req true_token_id false_token_id r st0 =
     (let st1 = safety_save a st0;
          st = st1\<lparr>since_last_save := since_last_save st1 + 1\<rparr>
      in case text_sample env a req true_token_id false_token_id r of
           Inl e \<Rightarrow> Inl e
         | Inr out \<Rightarrow>
             Inr (st\<lparr>console := console st @ printed out,
                     classifier_calls := classifier_calls st + 1,
                     model_calls := model_calls st + forward_passes out,
                     results := results st @ [prediction out]\<rparr>))"

fun text_rows ::
  "text_env \<Rightarrow> filter_args \<Rightarrow> tfloat \<Rightarrow> nat \<Rightarrow> nat \<Rightarrow> row list \<Rightarrow> run_state \<Rightarrow>
   py_error + run_state" where
  "text_rows env a req true_token_id false_token_id [] st = Inr st"
| "text_rows env a req true_token_id false_token_id (r # rs) st =
     (case text_row env a req true_token_id false_token_id r st of
        Inl e \<Rightarrow> Inl e
      | Inr st' \<Rightarrow> text_rows env a req true_token_id false_token_id rs st')"

definition text_filter_run :: "text_env \<Rightarrow> filter_args \<Rightarrow> py_error + run_state" where
  "text_filter_run env a =
     (case req_logit_diff (threshold a) of
        Inl e \<Rightarrow> Inl e
      | Inr req \<Rightarrow>
          (case first_id (t_tokenize env ''1'') of
             Inl e \<Rightarrow> Inl e
           | Inr true_token_id \<Rightarrow>
               (case first_id (t_tokenize env ''0'') of
                  Inl e \<Rightarrow> Inl e
                | Inr false_token_id \<Rightarrow>
                    text_rows env a req true_token_id false_token_id
                      (metadata a) init_state)))"

definition text_filter :: "text_env \<Rightarrow> filter_args \<Rightarrow> py_error + bool list" where
  "text_filter env a =
     (case text_filter_run env a of Inl e \<Rightarrow> Inl e | Inr st \<Rightarrow> Inr (results st))"

section \<open>Hypotheses of the claims, and sample data\<close>

text \<open>
  The condition "the top-k set holds neither target token at any of the next \<open>s\<close>
  forward passes", along the inputs the loop itself produces: at each pass the top-k
  ids exist, hold neither id, and the first of them is appended for the next pass.
\<close>

fun never_ready ::
  "(encoded_input \<Rightarrow> real list) \<Rightarrow> nat \<Rightarrow> nat \<Rightarrow> int option \<Rightarrow> nat \<Rightarrow> encoded_input \<Rightarrow> bool" where
  "never_ready model id_1 id_0 k 0 inp = True"
| "never_ready model id_1 id_0 k (Suc s) inp =
     (case topk_ids (model inp) k of
        Inl e \<Rightarrow> False
      | Inr ids \<Rightarrow>
          id_1 \<notin> set ids \<and> id_0 \<notin> set ids \<and>
          (case ids of
             [] \<Rightarrow> False
           | t # _ \<Rightarrow> never_ready model id_1 id_0 k s (append_token inp t)))"

text \<open>
  A vocabulary of three tokens, with token 1 for "1" and token 2 for "0". The stuck
  model always prefers token 0; the keen model prefers token 1 at once.
\<close>

definition stuck_model :: "encoded_input \<Rightarrow> real list" where
  "stuck_model inp = [3, 1, 0]"

definition keen_model :: "encoded_input \<Rightarrow> real list" where
  "keen_model inp = [0, 3, 1]"

definition stuck_text_model :: "nat list \<Rightarrow> real list" where
  "stuck_text_model toks = [3, 1, 0]"

definition keen_text_model :: "nat list \<Rightarrow> real list" where
  "keen_text_model toks = [0, 3, 1]"

definition sample_input :: encoded_input where
  "sample_input =
     \<lparr>input_ids = [5], attention_mask = [1], cross_attention_mask = [[1, 0, 0, 0]],
      pixel_values = [9]\<rparr>"

definition sample_env :: vision_env where
  "sample_env =
     \<lparr>v_model = keen_model,
      v_tokenize = (\<lambda>s. if s = ''1'' then [1] else [2]),
      v_format = (\<lambda>p c. p @ c),
      v_chat_template = (\<lambda>p. p),
      v_processor = (\<lambda>img txt. sample_input),
      v_image_open = (\<lambda>path. if path = ''a.png'' then Opened [9]
                               else if path = ''b.png'' then Unidentified_image
                               else File_not_found)\<rparr>"

text \<open>The same collaborators, with the first image path naming a directory.\<close>

definition unreadable_env :: vision_env where
  "unreadable_env =
     sample_env\<lparr>v_image_open := (\<lambda>path. if path = ''a.png'' then Open_failed
                                          else File_not_found)\<rparr>"

definition sample_args :: vision_args where
  "sample_args =
     \<lparr>metadata = [[(''caption'', ''cat''), (''image'', ''a.png'')],
                  [(''caption'', ''dog''), (''image'', ''gone.png'')]],
      caption_column = Some ''caption'', prompt = ''q'', output_path = ''out.tsv'',
      has_header = True, delim = ''|'', threshold = 1 / 2, save_every = Some 1,
      max_steps = Some 10, topk = Some 1,
      image_column = ''image'', keep_corrupted = False\<rparr>"

definition sample_text_env :: text_env where
  "sample_text_env =
     \<lparr>t_model = keen_text_model,
      t_tokenize = (\<lambda>s. if s = ''1'' then [1] else [2]),
      t_format = (\<lambda>p c. p @ c),
      t_chat_template = (\<lambda>p. [5])\<rparr>"

definition sample_text_args :: filter_args where
  "sample_text_args =
     \<lparr>metadata = [[(''caption'', ''cat'')], [(''caption'', ''dog'')]],
      caption_column = Some ''caption'', prompt = ''q'', output_path = ''out.tsv'',
      has_header = True, delim = ''|'', threshold = 1 / 2, save_every = Some 1,
      max_steps = Some 10, topk = Some 1\<rparr>"

section \<open>Facts about the rounding to a binary format\<close>

text \<open>Rounding to the nearest integer: bounds, monotonicity and symmetry.\<close>

lemma round_half_even_near:
  "of_int n \<le> q \<Longrightarrow> q < of_int n + 1 / 2 \<Longrightarrow> round_half_even q = n"
proof -
  assume a: "of_int n \<le> q" "q < of_int n + 1 / 2"
  then have "\<lfloor>q\<rfloor> = n" by (intro floor_unique) simp_all
  with a show ?thesis by (simp add: round_half_even_def Let_def)
qed

lemma round_half_even_bounds:
  "of_int (round_half_even q) \<le> q + 1 / 2" "q - 1 / 2 \<le> of_int (round_half_even q)"
  by (auto simp add: round_half_even_def Let_def) linarith+

lemma round_half_even_mono: "q \<le> q' \<Longrightarrow> round_half_even q \<le> round_half_even q'"
proof -
  assume le: "q \<le> q'"
  then have fl: "\<lfloor>q\<rfloor> \<le> \<lfloor>q'\<rfloor>" by (rule floor_mono)
  show ?thesis
  proof (cases "\<lfloor>q\<rfloor> = \<lfloor>q'\<rfloor>")
    case True
    with le show ?thesis
      by (auto simp add: round_half_even_def Let_def)
  next
    case False
    with fl have "\<lfloor>q\<rfloor> + 1 \<le> \<lfloor>q'\<rfloor>" by simp
    moreover have "round_half_even q \<le> \<lfloor>q\<rfloor> + 1"
      by (simp add: round_half_even_def Let_def)
    moreover have "\<lfloor>q'\<rfloor> \<le> round_half_even q'"
      by (simp add: round_half_even_def Let_def)
    ultimately show ?thesis by linarith
  qed
qed

lemma round_half_even_of_int: "round_half_even (of_int n) = n"
  by (simp add: round_half_even_def)

lemma round_half_even_le_int: "q \<le> of_int n \<Longrightarrow> round_half_even q \<le> n"
  using round_half_even_mono[of q "of_int n"] by (simp add: round_half_even_of_int)

lemma round_half_even_ge_int: "of_int n \<le> q \<Longrightarrow> n \<le> round_half_even q"
  using round_half_even_mono[of "of_int n" q] by (simp add: round_half_even_of_int)

lemma round_half_even_minus: "round_half_even (- q) = - round_half_even q"
proof (cases "q = of_int \<lfloor>q\<rfloor>")
  case True
  then obtain n where "q = of_int n" by blast
  then have "- q = of_int (- n)" by simp
  with \<open>q = of_int n\<close> show ?thesis by (simp only: round_half_even_of_int)
next
  case False
  then have fl: "\<lfloor>- q\<rfloor> = - \<lfloor>q\<rfloor> - 1"
    by (intro floor_unique) (simp_all, linarith+)
  define n where "n = \<lfloor>q\<rfloor>"
  define r where "r = q - of_int n"
  have r: "0 < r" "r < 1" using False by (simp_all add: r_def n_def) linarith+
  have a: "round_half_even q =
      (if r < 1 / 2 then n else if 1 / 2 < r then n + 1 else if even n then n else n + 1)"
    by (simp add: round_half_even_def Let_def r_def n_def)
  have "- q - of_int (- n - 1) = 1 - r" by (simp add: r_def)
  then have b: "round_half_even (- q) =
      (if 1 - r < 1 / 2 then - n - 1 else if 1 / 2 < 1 - r then - n
       else if even (- n - 1) then - n - 1 else - n)"
    using fl by (simp add: round_half_even_def Let_def n_def)
  show ?thesis unfolding a b using r by auto
qed


lemma ulp_pos: "0 < ulp m emin x"
  by (simp add: ulp_def)

lemma ulp_minus: "ulp m emin (- x) = ulp m emin x"
  by (simp add: ulp_def binade_def)

lemma ulp_times: "2 ^ m * ulp m emin x = 2 powr (of_int (binade emin x))"
proof -
  have "(2::real) ^ m = 2 powr (of_nat m)" by (simp add: powr_realpow)
  then show ?thesis by (simp add: ulp_def powr_add[symmetric])
qed

lemma round_binary_minus: "round_binary m emin (- x) = - round_binary m emin x"
  by (simp add: round_binary_def ulp_minus round_half_even_minus)

lemma round_binary_zero: "round_binary m emin 0 = 0"
  by (simp add: round_binary_def round_half_even_def)

lemma binade_ge: "emin \<le> binade emin x"
  by (simp add: binade_def)

lemma binade_upper: "x \<noteq> 0 \<Longrightarrow> \<bar>x\<bar> < 2 powr (of_int (binade emin x) + 1)"
proof -
  assume "x \<noteq> 0"
  then have pos: "0 < \<bar>x\<bar>" by simp
  have "\<bar>x\<bar> < 2 powr (of_int \<lfloor>log 2 \<bar>x\<bar>\<rfloor> + 1)"
    using floor_log_eq_powr_iff[OF pos, of 2 "\<lfloor>log 2 \<bar>x\<bar>\<rfloor>"] by simp
  also have "\<dots> \<le> 2 powr (of_int (binade emin x) + 1)"
    by (intro powr_mono) (simp_all add: binade_def)
  finally show ?thesis .
qed

lemma binade_lower:
  "x \<noteq> 0 \<Longrightarrow> emin < binade emin x \<Longrightarrow> 2 powr (of_int (binade emin x)) \<le> \<bar>x\<bar>"
proof -
  assume "x \<noteq> 0" and big: "emin < binade emin x"
  then have pos: "0 < \<bar>x\<bar>" by simp
  from big have eq: "binade emin x = \<lfloor>log 2 \<bar>x\<bar>\<rfloor>"
    unfolding binade_def by linarith
  show ?thesis
    using floor_log_eq_powr_iff[OF pos, of 2 "\<lfloor>log 2 \<bar>x\<bar>\<rfloor>"] eq by simp
qed

lemma binade_mono: "0 < x \<Longrightarrow> x \<le> y \<Longrightarrow> binade emin x \<le> binade emin y"
proof -
  assume "0 < x" "x \<le> y"
  then have "log 2 \<bar>x\<bar> \<le> log 2 \<bar>y\<bar>" by simp
  then have "\<lfloor>log 2 \<bar>x\<bar>\<rfloor> \<le> \<lfloor>log 2 \<bar>y\<bar>\<rfloor>" by (rule floor_mono)
  then show ?thesis unfolding binade_def by linarith
qed

lemma binade_eq:
  "2 powr (of_int e) \<le> \<bar>x\<bar> \<Longrightarrow> \<bar>x\<bar> < 2 powr (of_int e + 1) \<Longrightarrow> emin \<le> e \<Longrightarrow>
   binade emin x = e"
proof -
  assume a: "2 powr (of_int e) \<le> \<bar>x\<bar>" "\<bar>x\<bar> < 2 powr (of_int e + 1)" "emin \<le> e"
  have "0 < (2::real) powr (of_int e)" by simp
  with a(1) have pos: "0 < \<bar>x\<bar>" by linarith
  from a have "\<lfloor>log 2 \<bar>x\<bar>\<rfloor> = e"
    using floor_log_eq_powr_iff[OF pos, of 2 e] by simp
  with a(3) show ?thesis by (simp add: binade_def)
qed

lemma binade_small:
  "x \<noteq> 0 \<Longrightarrow> \<bar>x\<bar> < 2 powr (of_int emin + 1) \<Longrightarrow> binade emin x = emin"
proof -
  assume "x \<noteq> 0" and small: "\<bar>x\<bar> < 2 powr (of_int emin + 1)"
  then have pos: "0 < \<bar>x\<bar>" by simp
  have "\<not> (emin + 1 \<le> \<lfloor>log 2 \<bar>x\<bar>\<rfloor>)"
  proof
    assume "emin + 1 \<le> \<lfloor>log 2 \<bar>x\<bar>\<rfloor>"
    then have "real_of_int (emin + 1) \<le> real_of_int \<lfloor>log 2 \<bar>x\<bar>\<rfloor>"
      by (simp only: of_int_le_iff)
    then have "(2::real) powr (of_int (emin + 1)) \<le> 2 powr (of_int \<lfloor>log 2 \<bar>x\<bar>\<rfloor>)"
      by (intro powr_mono) simp_all
    also have "\<dots> \<le> \<bar>x\<bar>"
      using floor_log_eq_powr_iff[OF pos, of 2 "\<lfloor>log 2 \<bar>x\<bar>\<rfloor>"] by simp
    finally show False using small by simp
  qed
  then show ?thesis unfolding binade_def by linarith
qed

text \<open>A positive value is rounded to a value of its own closed binade.\<close>

lemma round_binary_upper:
  assumes "0 < x"
  shows "round_binary m emin x \<le> 2 powr (of_int (binade emin x) + 1)"
proof -
  let ?u = "ulp m emin x"
  have u: "0 < ?u" by (rule ulp_pos)
  have top: "2 powr (of_int (binade emin x) + 1) = of_int (2 ^ Suc m) * ?u"
    using ulp_times[of m emin x] by (simp add: powr_add)
  from assms binade_upper[of x emin] have "x < 2 powr (of_int (binade emin x) + 1)" by simp
  with top have "x / ?u \<le> of_int (2 ^ Suc m)" using u by (simp add: divide_simps)
  then have "round_half_even (x / ?u) \<le> 2 ^ Suc m" by (rule round_half_even_le_int)
  then have "real_of_int (round_half_even (x / ?u)) \<le> real_of_int (2 ^ Suc m)"
    by (simp only: of_int_le_iff)
  then have "of_int (round_half_even (x / ?u)) * ?u \<le> of_int (2 ^ Suc m) * ?u"
    using u by (intro mult_right_mono) simp_all
  with top show ?thesis by (simp add: round_binary_def)
qed

lemma round_binary_lower:
  assumes "0 < x" "2 powr (of_int (binade emin x)) \<le> x"
  shows "2 powr (of_int (binade emin x)) \<le> round_binary m emin x"
proof -
  let ?u = "ulp m emin x"
  have u: "0 < ?u" by (rule ulp_pos)
  have bot: "2 powr (of_int (binade emin x)) = of_int (2 ^ m) * ?u"
    using ulp_times[of m emin x] by simp
  with assms(2) have "of_int (2 ^ m) \<le> x / ?u" using u by (simp add: divide_simps)
  then have "2 ^ m \<le> round_half_even (x / ?u)" by (rule round_half_even_ge_int)
  then have "real_of_int (2 ^ m) \<le> real_of_int (round_half_even (x / ?u))"
    by (simp only: of_int_le_iff)
  then have "of_int (2 ^ m) * ?u \<le> of_int (round_half_even (x / ?u)) * ?u"
    using u by (intro mult_right_mono) simp_all
  with bot show ?thesis by (simp add: round_binary_def)
qed

lemma round_binary_nonneg: "0 \<le> x \<Longrightarrow> 0 \<le> round_binary m emin x"
proof -
  assume "0 \<le> x"
  then have "of_int 0 \<le> x / ulp m emin x" using ulp_pos[of m emin x] by simp
  then have "0 \<le> round_half_even (x / ulp m emin x)" by (rule round_half_even_ge_int)
  then show ?thesis using ulp_pos[of m emin x] by (simp add: round_binary_def)
qed

lemma round_binary_mono_pos:
  assumes "0 < x" "x \<le> y"
  shows "round_binary m emin x \<le> round_binary m emin y"
proof (cases "binade emin x = binade emin y")
  case True
  then have u: "ulp m emin x = ulp m emin y" by (simp add: ulp_def)
  have "x / ulp m emin y \<le> y / ulp m emin y"
    using assms ulp_pos[of m emin y] by (simp add: divide_right_mono)
  then have "round_half_even (x / ulp m emin y) \<le> round_half_even (y / ulp m emin y)"
    by (rule round_half_even_mono)
  then show ?thesis
    using ulp_pos[of m emin y] by (simp add: round_binary_def u)
next
  case False
  with binade_mono[OF assms, of emin] have less: "binade emin x < binade emin y" by simp
  with binade_ge[of emin x] have big: "emin < binade emin y" by simp
  from assms have y: "0 < y" "y \<noteq> 0" by simp_all
  from binade_lower[OF y(2) big] y(1) have low: "2 powr (of_int (binade emin y)) \<le> y" by simp
  have "round_binary m emin x \<le> 2 powr (of_int (binade emin x) + 1)"
    by (rule round_binary_upper[OF assms(1)])
  also have "\<dots> \<le> 2 powr (of_int (binade emin y))"
    using less by (intro powr_mono) simp_all
  also have "\<dots> \<le> round_binary m emin y" by (rule round_binary_lower[OF y(1) low])
  finally show ?thesis .
qed

lemma round_binary_mono:
  assumes "x \<le> y"
  shows "round_binary m emin x \<le> round_binary m emin y"
proof -
  consider "0 < x" | "x \<le> 0" "0 \<le> y" | "y < 0" by linarith
  then show ?thesis
  proof cases
    case 1
    with assms show ?thesis by (intro round_binary_mono_pos)
  next
    case 2
    then have "0 \<le> - x" by simp
    then have "0 \<le> round_binary m emin (- x)" by (rule round_binary_nonneg)
    then have "round_binary m emin x \<le> 0" by (simp add: round_binary_minus)
    also from 2 have "0 \<le> round_binary m emin y" by (intro round_binary_nonneg)
    finally show ?thesis .
  next
    case 3
    with assms have "0 < - y" "- y \<le> - x" by simp_all
    then have "round_binary m emin (- y) \<le> round_binary m emin (- x)"
      by (rule round_binary_mono_pos)
    then show ?thesis by (simp add: round_binary_minus)
  qed
qed

text \<open>A value that is a multiple of the unit of its binade is kept as it is.\<close>

lemma round_binary_exact:
  assumes "x = of_int n * 2 powr (of_int e - of_nat m)"
    and "2 powr (of_int e) \<le> \<bar>x\<bar>" and "\<bar>x\<bar> < 2 powr (of_int e + 1)" and "emin \<le> e"
  shows "round_binary m emin x = x"
proof -
  define w :: real where "w = 2 powr (of_int e - of_nat m)"
  have w: "0 < w" by (simp add: w_def)
  from assms(2-4) have "binade emin x = e" by (rule binade_eq)
  then have u: "ulp m emin x = w" by (simp add: ulp_def w_def)
  from assms(1) have xw: "x = of_int n * w" by (simp only: w_def)
  have "x / w = of_int n" using w by (simp add: xw)
  then have "round_half_even (x / w) = n" by (simp only: round_half_even_of_int)
  then have "round_binary m emin x = of_int n * w"
    by (simp only: round_binary_def u)
  with xw show ?thesis by simp
qed

lemma round_binary_power: "emin \<le> e \<Longrightarrow> round_binary m emin (2 powr (of_int e)) = 2 powr (of_int e)"
proof -
  assume e: "emin \<le> e"
  have "(2::real) powr (of_int e) = of_int (2 ^ m) * 2 powr (of_int e - of_nat m)"
    by (simp add: powr_diff powr_realpow)
  moreover have "(2::real) powr (of_int e) < 2 powr (of_int e + 1)"
    by (intro powr_less_mono) simp_all
  ultimately show ?thesis using e
    by (intro round_binary_exact[where n = "2 ^ m" and e = e]) simp_all
qed

lemma round_binary_ge_power:
  assumes "2 powr (of_int k) \<le> x" "emin \<le> k"
  shows "2 powr (of_int k) \<le> round_binary m emin x"
  using round_binary_mono[OF assms(1), of m emin] round_binary_power[OF assms(2), of m] by simp

lemma round_binary_le_power:
  assumes "x \<le> 2 powr (of_int k)" "emin \<le> k"
  shows "round_binary m emin x \<le> 2 powr (of_int k)"
  using round_binary_mono[OF assms(1), of m emin] round_binary_power[OF assms(2), of m] by simp

text \<open>Below half the smallest unit everything becomes zero; beyond it nothing does.\<close>

lemma round_binary_tiny:
  assumes "\<bar>x\<bar> \<le> 2 powr (of_int emin - of_nat m - 1)"
  shows "round_binary m emin x = 0"
proof (cases "x = 0")
  case True
  then show ?thesis by (simp add: round_binary_zero)
next
  case False
  have "(2::real) powr (of_int emin - of_nat m - 1) < 2 powr (of_int emin + 1)"
    by (intro powr_less_mono) simp_all
  with assms have "\<bar>x\<bar> < 2 powr (of_int emin + 1)" by linarith
  with False have "binade emin x = emin" by (rule binade_small)
  then have u: "ulp m emin x = 2 powr (of_int emin - of_nat m)" by (simp add: ulp_def)
  define q where "q = x / ulp m emin x"
  have half: "2 powr (of_int emin - of_nat m - 1) = ulp m emin x / 2"
    by (simp add: u powr_diff)
  have "\<bar>q\<bar> = \<bar>x\<bar> / ulp m emin x" using ulp_pos[of m emin x] by (simp add: q_def)
  also have "\<dots> \<le> (ulp m emin x / 2) / ulp m emin x"
    using assms half ulp_pos[of m emin x] by (intro divide_right_mono) simp_all
  also have "\<dots> = 1 / 2" using ulp_pos[of m emin x] by simp
  finally have q: "\<bar>q\<bar> \<le> 1 / 2" .
  have "round_half_even q = 0"
  proof (cases "0 \<le> q")
    case True
    show ?thesis
    proof (cases "q = 1 / 2")
      case True
      then have "\<lfloor>q\<rfloor> = 0" by (intro floor_unique) simp_all
      with True show ?thesis by (simp add: round_half_even_def Let_def)
    next
      case False
      with True q have "of_int 0 \<le> q" "q < of_int 0 + 1 / 2" by simp_all
      then show ?thesis by (rule round_half_even_near)
    qed
  next
    case False
    with q have "of_int (- 1) \<le> q" "q < of_int (- 1) + 1" by simp_all
    then have fl: "\<lfloor>q\<rfloor> = - 1" by (rule floor_unique)
    from False q have "1 / 2 \<le> q + 1" by simp
    with fl show ?thesis by (simp add: round_half_even_def Let_def)
  qed
  then show ?thesis by (simp add: round_binary_def q_def)
qed

lemma round_binary_negative:
  assumes "x < - (2 powr (of_int emin - of_nat m - 1))"
  shows "round_binary m emin x < 0"
proof -
  have "0 < (2::real) powr (of_int emin - of_nat m - 1)" by simp
  with assms have x: "x < 0" by linarith
  have u: "0 < ulp m emin x" by (rule ulp_pos)
  have "x / ulp m emin x < - (1 / 2)"
  proof (cases "binade emin x = emin")
    case True
    then have uu: "ulp m emin x = 2 powr (of_int emin - of_nat m)" by (simp add: ulp_def)
    have half: "2 powr (of_int emin - of_nat m - 1) = ulp m emin x / 2"
      by (simp add: uu powr_diff)
    with assms have "x < - (ulp m emin x / 2)" by simp
    then show ?thesis using u by (simp add: divide_simps mult.commute)
  next
    case False
    with binade_ge[of emin x] have big: "emin < binade emin x" by simp
    from x have "x \<noteq> 0" by simp
    from binade_lower[OF this big] x have "x \<le> - (2 powr (of_int (binade emin x)))"
      by simp
    also have "\<dots> = - (2 ^ m * ulp m emin x)" by (simp only: ulp_times)
    finally have "x / ulp m emin x \<le> - (2 ^ m)" using u by (simp add: divide_simps)
    moreover have "(1::real) \<le> 2 ^ m" by simp
    ultimately show ?thesis by linarith
  qed
  with round_half_even_bounds(1)[of "x / ulp m emin x"]
  have "real_of_int (round_half_even (x / ulp m emin x)) < 0" by linarith
  then show ?thesis using u by (simp add: round_binary_def mult_neg_pos)
qed

text \<open>The two formats of line 55, and what the conversion and the logarithm give.\<close>

lemma round_binary_le_double:
  assumes "2 powr (of_int emin) \<le> x"
  shows "round_binary m emin x \<le> 2 * x"
proof -
  have "0 < (2::real) powr (of_int emin)" by simp
  with assms have x: "0 < x" "x \<noteq> 0" by linarith+
  have low: "2 powr (of_int (binade emin x)) \<le> x"
  proof (cases "binade emin x = emin")
    case True
    with assms show ?thesis by simp
  next
    case False
    with binade_ge[of emin x] have "emin < binade emin x" by simp
    from binade_lower[OF x(2) this] x(1) show ?thesis by simp
  qed
  have "round_binary m emin x \<le> 2 powr (of_int (binade emin x) + 1)"
    by (rule round_binary_upper[OF x(1)])
  also have "\<dots> = 2 * 2 powr (of_int (binade emin x))" by (simp add: powr_add)
  also from low have "\<dots> \<le> 2 * x" by simp
  finally show ?thesis .
qed


lemma float64_ge_power:
  "2 powr (of_int k) \<le> x \<Longrightarrow> - 1022 \<le> k \<Longrightarrow> 2 powr (of_int k) \<le> float64_value x"
  unfolding float64_value_def by (rule round_binary_ge_power)

lemma float64_le_power:
  "x \<le> 2 powr (of_int k) \<Longrightarrow> - 1022 \<le> k \<Longrightarrow> float64_value x \<le> 2 powr (of_int k)"
  unfolding float64_value_def by (rule round_binary_le_power)

lemma float64_minus: "float64_value (- x) = - float64_value x"
  by (simp add: float64_value_def round_binary_minus)


lemma float64_nonneg: "0 \<le> x \<Longrightarrow> 0 \<le> float64_value x"
  unfolding float64_value_def by (rule round_binary_nonneg)

lemma float64_nonpos: "x \<le> 0 \<Longrightarrow> float64_value x \<le> 0"
  using float64_nonneg[of "- x"] by (simp add: float64_minus)

lemma float64_half: "float64_value (1 / 2) = 1 / 2"
  using round_binary_power[of "- 1022" "- 1" 52]
  by (simp add: float64_value_def powr_minus inverse_eq_divide)

lemma float64_one: "float64_value 1 = 1"
  using round_binary_power[of "- 1022" 0 52] by (simp add: float64_value_def)

lemma float32_one: "float32 1 = Fin 1"
  using round_binary_power[of "- 126" 0 23] by (simp add: float32_def float32_value_def)

lemma float32_tiny: "\<bar>x\<bar> \<le> 1 / 2 ^ 150 \<Longrightarrow> float32 x = Fin 0"
proof -
  assume "\<bar>x\<bar> \<le> 1 / 2 ^ 150"
  then have "\<bar>x\<bar> \<le> 2 powr (of_int (- 126) - of_nat 23 - 1)"
    by (simp add: powr_neg_numeral)
  then have "float32_value x = 0" unfolding float32_value_def by (rule round_binary_tiny)
  then show ?thesis by (simp add: float32_def)
qed

lemma torch_log_float32_negative: "x < - (1 / 2 ^ 150) \<Longrightarrow> torch_log (float32 x) = NaN"
proof -
  assume "x < - (1 / 2 ^ 150)"
  then have "x < - (2 powr (of_int (- 126) - of_nat 23 - 1))"
    by (simp add: powr_neg_numeral)
  then have "float32_value x < 0" unfolding float32_value_def by (rule round_binary_negative)
  then show ?thesis by (simp add: float32_def)
qed


lemma float32_nonneg:
  assumes "0 \<le> x"
  shows "float32 x = PosInf \<or> float32 x = Fin (float32_value x) \<and> 0 \<le> float32_value x"
proof -
  have "0 \<le> float32_value x"
    unfolding float32_value_def using assms by (rule round_binary_nonneg)
  then show ?thesis by (simp add: float32_def)
qed

lemma torch_log_float32_nonpos:
  assumes "x \<le> 0"
  shows "torch_log (float32 x) = NegInf \<or> torch_log (float32 x) = NaN"
proof -
  from assms have "0 \<le> float32_value (- x)"
    unfolding float32_value_def by (intro round_binary_nonneg) simp
  then have "float32_value x \<le> 0" by (simp add: float32_value_def round_binary_minus)
  then show ?thesis by (simp add: float32_def)
qed

lemma float32_mono_ge:
  assumes "x \<le> y" "tensor_ge d (float32 y)"
  shows "tensor_ge d (float32 x)"
proof -
  have le: "float32_value x \<le> float32_value y"
    unfolding float32_value_def using assms(1) by (rule round_binary_mono)
  from assms(2) have y: "\<not> 2 ^ 128 \<le> float32_value y"
    by (auto simp add: float32_def split: if_splits)
  with le have x: "\<not> 2 ^ 128 \<le> float32_value x" by simp
  show ?thesis
  proof (cases "float32_value x \<le> - (2 ^ 128)")
    case True
    with x show ?thesis by (simp add: float32_def)
  next
    case False
    with le have "\<not> float32_value y \<le> - (2 ^ 128)" by simp
    with y assms(2) have "float32_value y \<le> d" by (simp add: float32_def)
    with le False x show ?thesis by (simp add: float32_def)
  qed
qed


lemma torch_log_float32_mono:
  assumes "0 \<le> x" "x \<le> y" "tensor_ge d (torch_log (float32 y))"
  shows "tensor_ge d (torch_log (float32 x))"
proof -
  from assms have y: "0 \<le> y" by simp
  have le: "float32_value x \<le> float32_value y"
    unfolding float32_value_def using assms(2) by (rule round_binary_mono)
  from float32_nonneg[OF y] assms(3)
  have fy: "float32 y = Fin (float32_value y)" by auto
  then have small: "float32_value y < 2 ^ 128"
    by (auto simp add: float32_def split: if_splits)
  have nn: "0 \<le> float32_value x"
    unfolding float32_value_def using assms(1) by (rule round_binary_nonneg)
  from le small have "\<not> 2 ^ 128 \<le> float32_value x" by simp
  moreover from nn have "\<not> float32_value x \<le> - (2 ^ 128)" by simp
  ultimately have fx: "float32 x = Fin (float32_value x)" by (simp add: float32_def)
  show ?thesis
  proof (cases "float32_value x = 0")
    case True
    then show ?thesis by (simp add: fx)
  next
    case False
    with nn have px: "0 < float32_value x" by simp
    with le have py: "0 < float32_value y" by simp
    from px py le have lnle: "ln (float32_value x) \<le> ln (float32_value y)" by simp
    from assms(3) py have "tensor_ge d (float32 (ln (float32_value y)))" by (simp add: fy)
    from float32_mono_ge[OF lnle this] px show ?thesis by (simp add: fx)
  qed
qed

lemma torch_log_float32_mono_fin:
  assumes "0 \<le> x" "x \<le> y" "torch_log (float32 x) = Fin a" "torch_log (float32 y) = Fin b"
  shows "a \<le> b"
proof -
  have "tensor_ge b (torch_log (float32 y))" by (simp add: assms(4))
  from torch_log_float32_mono[OF assms(1,2) this] show ?thesis by (simp add: assms(3))
qed


section \<open>Facts about the required logit difference\<close>

lemma sample_req: "req_logit_diff (1 / 2) = Inr (Fin 0)"
  using float32_tiny[of 0]
  by (simp add: req_logit_diff_def float64_half float64_one float32_one)


lemma divisor_ge_one:
  assumes "t \<le> 0"
  shows "1 \<le> float64_value (1 - t)" "float64_value (1 - t) \<le> 2 * (1 - t)"
proof -
  from assms have "2 powr (of_int 0) \<le> 1 - t" by simp
  then have "2 powr (of_int 0) \<le> float64_value (1 - t)" by (rule float64_ge_power) simp
  then show "1 \<le> float64_value (1 - t)" by simp
  have "(2::real) powr (of_int (- 1022)) \<le> 2 powr (of_int 0)" by (intro powr_mono) simp_all
  with assms have "2 powr (of_int (- 1022)) \<le> 1 - t" by simp
  then show "float64_value (1 - t) \<le> 2 * (1 - t)"
    unfolding float64_value_def by (rule round_binary_le_double)
qed

lemma divisor_negative:
  assumes "1 + 1 / 2 ^ 52 \<le> t"
  shows "float64_value (1 - t) \<le> - (1 / 2 ^ 52)" "2 * (1 - t) \<le> float64_value (1 - t)"
proof -
  from assms have low: "2 powr (of_int (- 52)) \<le> t - 1" by (simp add: powr_neg_numeral)
  then have "2 powr (of_int (- 52)) \<le> float64_value (t - 1)" by (rule float64_ge_power) simp
  moreover have "float64_value (1 - t) = - float64_value (t - 1)"
    using float64_minus[of "t - 1"] by simp
  ultimately show "float64_value (1 - t) \<le> - (1 / 2 ^ 52)" by (simp add: powr_neg_numeral)
  have "(2::real) powr (of_int (- 1022)) \<le> 2 powr (of_int (- 52))"
    by (intro powr_mono) simp_all
  with low have "2 powr (of_int (- 1022)) \<le> t - 1" by linarith
  then have "float64_value (t - 1) \<le> 2 * (t - 1)"
    unfolding float64_value_def by (rule round_binary_le_double)
  with \<open>float64_value (1 - t) = - float64_value (t - 1)\<close>
  show "2 * (1 - t) \<le> float64_value (1 - t)" by simp
qed







text \<open>Outside the unit interval.\<close>

lemma req_above_one:
  assumes "1 + 1 / 2 ^ 52 \<le> t"
  shows "req_logit_diff t = Inr NaN"
proof -
  define dv where "dv = float64_value (1 - t)"
  note d = divisor_negative[OF assms, folded dv_def]
  have "(0::real) < 1 / 2 ^ 52" by simp
  with d(1) have neg: "dv < 0" by linarith
  from assms \<open>(0::real) < 1 / 2 ^ 52\<close> have t: "1 < t" by linarith
  define q where "q = t / dv"
  from d(2) neg t have q: "q \<le> - (1 / 2)"
    by (simp add: q_def divide_simps)
  have "(2::real) powr (of_int (- 1)) = 1 / 2" by (simp add: powr_minus inverse_eq_divide)
  with q have "2 powr (of_int (- 1)) \<le> - q" by linarith
  then have "2 powr (of_int (- 1)) \<le> float64_value (- q)"
    by (rule float64_ge_power) simp
  with \<open>(2::real) powr (of_int (- 1)) = 1 / 2\<close> have "float64_value q \<le> - (1 / 2)"
    by (simp add: float64_minus)
  moreover have "- (1 / 2) < - ((1::real) / 2 ^ 150)" by simp
  ultimately have "float64_value q < - (1 / 2 ^ 150)" by linarith
  then have "torch_log (float32 (float64_value q)) = NaN"
    by (rule torch_log_float32_negative)
  with neg show ?thesis by (simp add: req_logit_diff_def Let_def dv_def[symmetric] q_def)
qed

lemma req_nonpos:
  assumes "t \<le> 0"
  shows "req_logit_diff t = Inr NegInf \<or> req_logit_diff t = Inr NaN"
proof -
  define dv where "dv = float64_value (1 - t)"
  note d = divisor_ge_one[OF assms, folded dv_def]
  from assms d(1) have "t / dv \<le> 0" by (simp add: divide_le_0_iff)
  then have "float64_value (t / dv) \<le> 0" by (rule float64_nonpos)
  from torch_log_float32_nonpos[OF this] d(1) show ?thesis
    by (simp add: req_logit_diff_def Let_def dv_def[symmetric])
qed

lemma req_tiny_nonpos:
  assumes "- (1 / 2 ^ 150) \<le> t" "t \<le> 0"
  shows "req_logit_diff t = Inr NegInf"
proof -
  define dv where "dv = float64_value (1 - t)"
  note d = divisor_ge_one[OF assms(2), folded dv_def]
  define q where "q = t / dv"
  from assms d(1) have q: "q \<le> 0" "- (1 / 2 ^ 150) \<le> q"
  proof -
    from assms(2) d(1) show "q \<le> 0" by (simp add: q_def divide_le_0_iff)
    from d(1) have dvpos: "0 < dv" by linarith
    have "t * dv \<le> t * 1" using d(1) assms(2) by (rule mult_left_mono_neg)
    with dvpos have "t \<le> t / dv" by (simp add: pos_le_divide_eq)
    with assms(1) show "- (1 / 2 ^ 150) \<le> q" by (simp add: q_def)
  qed
  from q(2) have "- q \<le> 2 powr (of_int (- 150))" by (simp add: powr_neg_numeral)
  then have "float64_value (- q) \<le> 2 powr (of_int (- 150))" by (rule float64_le_power) simp
  then have "- (1 / 2 ^ 150) \<le> float64_value q" by (simp add: float64_minus powr_neg_numeral)
  moreover from q(1) have "float64_value q \<le> 0" by (rule float64_nonpos)
  ultimately have "\<bar>float64_value q\<bar> \<le> 1 / 2 ^ 150" by simp
  then have "float32 (float64_value q) = Fin 0" by (rule float32_tiny)
  with d(1) show ?thesis by (simp add: req_logit_diff_def Let_def dv_def[symmetric] q_def)
qed

lemma req_clearly_negative:
  assumes "t \<le> - (1 / 2 ^ 147)"
  shows "req_logit_diff t = Inr NaN"
proof -
  have "(0::real) < 1 / 2 ^ 147" by simp
  with assms have t: "t < 0" "t \<le> 0" by linarith+
  define dv where "dv = float64_value (1 - t)"
  note d = divisor_ge_one[OF t(2), folded dv_def]
  define q where "q = t / dv"
  have "q \<le> - (1 / 2 ^ 149)"
  proof (cases "t \<le> - 1")
    case True
    with d have "t * 4 \<le> - dv" by argo
    with d(1) have "q \<le> - (1 / 4)" by (simp add: q_def divide_simps)
    moreover have "- ((1::real) / 4) \<le> - (1 / 2 ^ 149)" by simp
    ultimately show ?thesis by linarith
  next
    case False
    with d(2) have "dv \<le> 4" by simp
    with assms have "t * 2 ^ 149 \<le> - dv" by simp
    with d(1) show ?thesis by (simp add: q_def divide_simps)
  qed
  then have "2 powr (of_int (- 149)) \<le> - q" by (simp add: powr_neg_numeral)
  then have "2 powr (of_int (- 149)) \<le> float64_value (- q)" by (rule float64_ge_power) simp
  then have "float64_value q \<le> - (1 / 2 ^ 149)" by (simp add: float64_minus powr_neg_numeral)
  moreover have "- ((1::real) / 2 ^ 149) < - (1 / 2 ^ 150)" by simp
  ultimately have "float64_value q < - (1 / 2 ^ 150)" by linarith
  then have "torch_log (float32 (float64_value q)) = NaN" by (rule torch_log_float32_negative)
  with d(1) show ?thesis by (simp add: req_logit_diff_def Let_def dv_def[symmetric] q_def)
qed


lemma req_two: "req_logit_diff 2 = Inr NaN"
  by (rule req_above_one) simp

lemma req_minus_tiny: "req_logit_diff (- (1 / 2 ^ 200)) = Inr NegInf"
  by (rule req_tiny_nonpos) simp_all



section \<open>Facts about the classifier\<close>

lemma argsort_stuck: "argsort_desc [3, 1, 0] = [0, 1, 2]"
  by (simp add: argsort_desc_def enumerate_eq_zip upt_rec)

lemma argsort_keen: "argsort_desc [0, 3, 1] = [1, 2, 0]"
  by (simp add: argsort_desc_def enumerate_eq_zip upt_rec)

lemma topk_stuck: "topk_ids [3, 1, 0] (Some 1) = Inr [0]"
  by (simp add: topk_ids_def argsort_stuck)

lemma topk_keen: "topk_ids [0, 3, 1] (Some 1) = Inr [1]"
  by (simp add: topk_ids_def argsort_keen)

lemma vision_decide_unbounded:
  "\<not> truthy ms \<Longrightarrow> id_1 < length (vm inp) \<Longrightarrow> id_0 < length (vm inp) \<Longrightarrow>
   vision_steps vm req id_1 id_0 ms k (Suc s) inp n =
     Inr \<lparr>prediction = tensor_ge (vm inp ! id_1 - vm inp ! id_0) req, final_input = inp,
          forward_passes = Suc n, printed = []\<rparr>"
  by (simp add: classification_def Let_def)

lemma vision_decide_ready:
  "topk_ids (vm inp) k = Inr ids \<Longrightarrow> id_1 \<in> set ids \<or> id_0 \<in> set ids \<Longrightarrow>
   id_1 < length (vm inp) \<Longrightarrow> id_0 < length (vm inp) \<Longrightarrow>
   vision_steps vm req id_1 id_0 ms k (Suc s) inp n =
     Inr \<lparr>prediction = tensor_ge (vm inp ! id_1 - vm inp ! id_0) req, final_input = inp,
          forward_passes = Suc n, printed = []\<rparr>"
  by (auto simp add: classification_def Let_def)

lemma text_decide_unbounded:
  "\<not> truthy ms \<Longrightarrow> id_1 < length (tm toks) \<Longrightarrow> id_0 < length (tm toks) \<Longrightarrow>
   text_steps tm req id_1 id_0 ms k (Suc s) toks n =
     Inr \<lparr>prediction = tensor_ge (tm toks ! id_1 - tm toks ! id_0) req, final_input = toks,
          forward_passes = Suc n, printed = []\<rparr>"
  by (simp add: classification_def Let_def)

lemma text_decide_ready:
  "topk_ids (tm toks) k = Inr ids \<Longrightarrow> id_1 \<in> set ids \<or> id_0 \<in> set ids \<Longrightarrow>
   id_1 < length (tm toks) \<Longrightarrow> id_0 < length (tm toks) \<Longrightarrow>
   text_steps tm req id_1 id_0 ms k (Suc s) toks n =
     Inr \<lparr>prediction = tensor_ge (tm toks ! id_1 - tm toks ! id_0) req, final_input = toks,
          forward_passes = Suc n, printed = []\<rparr>"
  by (auto simp add: classification_def Let_def)

lemma steps_of_bound: "0 < m \<Longrightarrow> \<exists>s. nat m = Suc s"
  by (cases "nat m") auto

text \<open>
  The loop under a model that is never ready: every iteration appends one token and one
  unit to each mask, none scores, and the code after the loop returns \<open>True\<close>.
\<close>

lemma never_ready_steps:
  "truthy ms \<Longrightarrow> never_ready vm id_1 id_0 k s inp \<Longrightarrow>
   \<exists>out. vision_steps vm req id_1 id_0 ms k s inp n = Inr out \<and>
     prediction out = True \<and> printed out = [Attempt_limit ms] \<and>
     forward_passes out = n + s \<and>
     length (input_ids (final_input out)) = length (input_ids inp) + s \<and>
     length (attention_mask (final_input out)) = length (attention_mask inp) + s \<and>
     length (cross_attention_mask (final_input out)) = length (cross_attention_mask inp) + s \<and>
     take (length (input_ids inp)) (input_ids (final_input out)) = input_ids inp"
proof (induction s arbitrary: inp n)
  case 0
  then show ?case by simp
next
  case (Suc s)
  from Suc.prems(2) obtain t ids where
    ids: "topk_ids (vm inp) k = Inr (t # ids)" "id_1 \<notin> set (t # ids)" "id_0 \<notin> set (t # ids)"
    and rest: "never_ready vm id_1 id_0 k s (append_token inp t)"
    by (auto split: sum.splits list.splits)
  from Suc.IH[OF Suc.prems(1) rest, of "Suc n"] obtain out where
    out: "vision_steps vm req id_1 id_0 ms k s (append_token inp t) (Suc n) = Inr out"
      "prediction out = True" "printed out = [Attempt_limit ms]"
      "forward_passes out = Suc n + s"
      "length (input_ids (final_input out)) = length (input_ids (append_token inp t)) + s"
      "length (attention_mask (final_input out)) =
         length (attention_mask (append_token inp t)) + s"
      "length (cross_attention_mask (final_input out)) =
         length (cross_attention_mask (append_token inp t)) + s"
      "take (length (input_ids (append_token inp t))) (input_ids (final_input out)) =
         input_ids (append_token inp t)"
    by blast
  have step: "vision_steps vm req id_1 id_0 ms k (Suc s) inp n = Inr out"
    using Suc.prems(1) ids out(1) by (simp add: Let_def)
  have "take (length (input_ids inp)) (input_ids (final_input out)) = input_ids inp"
  proof -
    have "take (length (input_ids inp))
            (take (length (input_ids (append_token inp t))) (input_ids (final_input out))) =
          take (length (input_ids inp)) (input_ids (append_token inp t))"
      using out(8) by simp
    then show ?thesis by (simp add: append_token_def min_def)
  qed
  with step out show ?case by (simp add: append_token_def)
qed

lemma never_ready_stuck: "never_ready stuck_model 1 2 (Some 1) 2 sample_input"
  by (simp add: numeral_2_eq_2 stuck_model_def topk_stuck)

section \<open>The claims about the classifier\<close>

text \<open>
  C1 (as amended). For a positive \<open>max_steps = m\<close> and a run of \<^verbatim>\<open>vision_classify\<close>
  in which neither target token is in the top-k set at any of the \<open>m\<close> forward passes,
  the classifier returns \<open>True\<close>, prints that the attempt limit was reached, makes
  \<open>m\<close> forward passes, and the token sequence (with both masks) has grown by exactly
  \<open>m\<close> entries after the original ones: every pass that is not ready appends,
  the last one too, and none scores.
\<close>

theorem attempt_limit_appends_every_step:
  assumes "0 < m" and "never_ready vm id_1 id_0 k (nat m) inp"
  shows "\<exists>out. vision_classify vm inp req id_1 id_0 (Some m) k = Inr out \<and>
           prediction out = True \<and>
           printed out = [Attempt_limit (Some m)] \<and>
           forward_passes out = nat m \<and>
           length (input_ids (final_input out)) = length (input_ids inp) + nat m \<and>
           length (attention_mask (final_input out)) = length (attention_mask inp) + nat m \<and>
           length (cross_attention_mask (final_input out)) =
             length (cross_attention_mask inp) + nat m \<and>
           take (length (input_ids inp)) (input_ids (final_input out)) = input_ids inp"
proof -
  from assms(1) have "truthy (Some m)" by (simp add: truthy_def)
  from never_ready_steps[OF this assms(2), of req 0] show ?thesis
    by (simp add: vision_classify_def)
qed

text \<open>The stuck model with \<open>max_steps = 2\<close>: two passes, three tokens at the end.\<close>

theorem attempt_limit_appends_every_step_witness:
  "prediction (projr (vision_classify stuck_model sample_input (Fin 0) 1 2 (Some 2) (Some 1))) = True \<and>
   forward_passes (projr (vision_classify stuck_model sample_input (Fin 0) 1 2 (Some 2) (Some 1))) = 2 \<and>
   length (input_ids (final_input
      (projr (vision_classify stuck_model sample_input (Fin 0) 1 2 (Some 2) (Some 1))))) = 3"
proof -
  have m: "(0::int) < 2" by simp
  have nr: "never_ready stuck_model 1 2 (Some 1) (nat 2) sample_input"
    using never_ready_stuck by simp
  from attempt_limit_appends_every_step[OF m nr, of "Fin 0"] show ?thesis
    by (auto simp add: sample_input_def)
qed

text \<open>
  C1 as the claim states it fails there: the model is never ready in two passes, the
  sequence starts with one token and ends with three, not with \<open>1 + (2 - 1)\<close>.
\<close>

theorem attempt_limit_growth_counterexample:
  "never_ready stuck_model 1 2 (Some 1) 2 sample_input \<and>
   vision_classify stuck_model sample_input (Fin 0) 1 2 (Some 2) (Some 1) =
     Inr \<lparr>prediction = True,
          final_input = \<lparr>input_ids = [5, 0, 0], attention_mask = [1, 1, 1],
                         cross_attention_mask = [[1, 0, 0, 0], [1, 1, 0, 0], [1, 1, 0, 0]],
                         pixel_values = [9]\<rparr>,
          forward_passes = 2, printed = [Attempt_limit (Some 2)]\<rparr> \<and>
   length (input_ids (final_input
      (projr (vision_classify stuck_model sample_input (Fin 0) 1 2 (Some 2) (Some 1))))) \<noteq>
     length (input_ids sample_input) + (2 - 1)"
proof -
  have run: "vision_classify stuck_model sample_input (Fin 0) 1 2 (Some 2) (Some 1) =
     Inr \<lparr>prediction = True,
          final_input = \<lparr>input_ids = [5, 0, 0], attention_mask = [1, 1, 1],
                         cross_attention_mask = [[1, 0, 0, 0], [1, 1, 0, 0], [1, 1, 0, 0]],
                         pixel_values = [9]\<rparr>,
          forward_passes = 2, printed = [Attempt_limit (Some 2)]\<rparr>"
    by (simp add: vision_classify_def numeral_2_eq_2 stuck_model_def topk_stuck truthy_def
        Let_def append_token_def sample_input_def)
  have neq: "length (input_ids (final_input
      (projr (vision_classify stuck_model sample_input (Fin 0) 1 2 (Some 2) (Some 1))))) \<noteq>
     length (input_ids sample_input) + (2 - 1)"
    unfolding run by (simp add: sample_input_def)
  from never_ready_stuck run neq show ?thesis by (intro conjI)
qed

text \<open>
  C2. When the first forward pass puts the token of "1" or of "0" in the top-k set, the
  classifier (vision or text) returns after exactly one forward pass with the input as
  it was, whatever the step bound (a positive integer, or \<open>None\<close>). Both token ids
  are ids of the vocabulary.
\<close>

theorem ready_first_pass_one_forward:
  "(topk_ids (vm inp) k = Inr ids \<and> (id_1 \<in> set ids \<or> id_0 \<in> set ids) \<and>
    id_1 < length (vm inp) \<and> id_0 < length (vm inp) \<and>
    (case ms of None \<Rightarrow> True | Some m \<Rightarrow> 0 < m) \<longrightarrow>
    vision_classify vm inp req id_1 id_0 ms k =
      Inr \<lparr>prediction = tensor_ge (vm inp ! id_1 - vm inp ! id_0) req, final_input = inp,
           forward_passes = 1, printed = []\<rparr>) \<and>
   (topk_ids (tm toks) k = Inr tids \<and> (id_1 \<in> set tids \<or> id_0 \<in> set tids) \<and>
    id_1 < length (tm toks) \<and> id_0 < length (tm toks) \<and>
    (case ms of None \<Rightarrow> True | Some m \<Rightarrow> 0 < m) \<longrightarrow>
    text_classify tm toks req id_1 id_0 ms k =
      Inr \<lparr>prediction = tensor_ge (tm toks ! id_1 - tm toks ! id_0) req, final_input = toks,
           forward_passes = 1, printed = []\<rparr>)"
proof (intro conjI impI)
  assume h: "topk_ids (vm inp) k = Inr ids \<and> (id_1 \<in> set ids \<or> id_0 \<in> set ids) \<and>
    id_1 < length (vm inp) \<and> id_0 < length (vm inp) \<and>
    (case ms of None \<Rightarrow> True | Some m \<Rightarrow> 0 < m)"
  then obtain s where s: "(case ms of None \<Rightarrow> 1 | Some m \<Rightarrow> nat m) = Suc s"
    using steps_of_bound by (cases ms) auto
  from h have "vision_steps vm req id_1 id_0 ms k (Suc s) inp 0 =
      Inr \<lparr>prediction = tensor_ge (vm inp ! id_1 - vm inp ! id_0) req, final_input = inp,
           forward_passes = Suc 0, printed = []\<rparr>"
    by (intro vision_decide_ready[of vm inp k ids]) simp_all
  then show "vision_classify vm inp req id_1 id_0 ms k =
      Inr \<lparr>prediction = tensor_ge (vm inp ! id_1 - vm inp ! id_0) req, final_input = inp,
           forward_passes = 1, printed = []\<rparr>"
    by (simp add: vision_classify_def s)
next
  assume h: "topk_ids (tm toks) k = Inr tids \<and> (id_1 \<in> set tids \<or> id_0 \<in> set tids) \<and>
    id_1 < length (tm toks) \<and> id_0 < length (tm toks) \<and>
    (case ms of None \<Rightarrow> True | Some m \<Rightarrow> 0 < m)"
  then obtain s where s: "(case ms of None \<Rightarrow> 1 | Some m \<Rightarrow> nat m) = Suc s"
    using steps_of_bound by (cases ms) auto
  from h have "text_steps tm req id_1 id_0 ms k (Suc s) toks 0 =
      Inr \<lparr>prediction = tensor_ge (tm toks ! id_1 - tm toks ! id_0) req, final_input = toks,
           forward_passes = Suc 0, printed = []\<rparr>"
    by (intro text_decide_ready[of tm toks k tids]) simp_all
  then show "text_classify tm toks req id_1 id_0 ms k =
      Inr \<lparr>prediction = tensor_ge (tm toks ! id_1 - tm toks ! id_0) req, final_input = toks,
           forward_passes = 1, printed = []\<rparr>"
    by (simp add: text_classify_def s)
qed

text \<open>The keen model answers at the first of ten allowed passes.\<close>

theorem ready_first_pass_one_forward_witness:
  "vision_classify keen_model sample_input (Fin 0) 1 2 (Some 10) (Some 1) =
      Inr \<lparr>prediction = True, final_input = sample_input, forward_passes = 1, printed = []\<rparr> \<and>
   text_classify keen_text_model [5] (Fin 0) 1 2 (Some 10) (Some 1) =
      Inr \<lparr>prediction = True, final_input = [5], forward_passes = 1, printed = []\<rparr>"
  using ready_first_pass_one_forward[of keen_model sample_input "Some 1" "[1]" 1 2 "Some 10"
      "Fin 0" keen_text_model "[5]" "[1]"]
  by (simp add: keen_model_def keen_text_model_def topk_keen)

text \<open>
  C3. At the scoring step the decision is exactly
  \<open>logit(id_1) - logit(id_0) \<ge> required difference\<close>: a difference equal to the
  bound keeps, the decision depends on the two target logits alone, and every iteration
  that reaches the scoring step (the bound is off, or a target token is in the top-k
  set) returns that decision.
\<close>

theorem decision_is_inclusive_ge:
  "(id_1 < length logits \<and> id_0 < length logits \<longrightarrow>
      classification logits (Fin r) id_1 id_0 = Inr (r \<le> logits ! id_1 - logits ! id_0) \<and>
      (logits ! id_1 - logits ! id_0 = r \<longrightarrow>
         classification logits (Fin r) id_1 id_0 = Inr True) \<and>
      (id_1 < length logits' \<and> id_0 < length logits' \<and>
       logits' ! id_1 = logits ! id_1 \<and> logits' ! id_0 = logits ! id_0 \<longrightarrow>
         classification logits' req id_1 id_0 = classification logits req id_1 id_0)) \<and>
   ((\<not> truthy ms \<or> (topk_ids (vm inp) k = Inr ids \<and> (id_1 \<in> set ids \<or> id_0 \<in> set ids))) \<and>
    id_1 < length (vm inp) \<and> id_0 < length (vm inp) \<longrightarrow>
      vision_steps vm (Fin r) id_1 id_0 ms k (Suc s) inp n =
        Inr \<lparr>prediction = (r \<le> vm inp ! id_1 - vm inp ! id_0), final_input = inp,
             forward_passes = Suc n, printed = []\<rparr>) \<and>
   ((\<not> truthy ms \<or> (topk_ids (tm toks) k = Inr tids \<and> (id_1 \<in> set tids \<or> id_0 \<in> set tids))) \<and>
    id_1 < length (tm toks) \<and> id_0 < length (tm toks) \<longrightarrow>
      text_steps tm (Fin r) id_1 id_0 ms k (Suc s) toks n =
        Inr \<lparr>prediction = (r \<le> tm toks ! id_1 - tm toks ! id_0), final_input = toks,
             forward_passes = Suc n, printed = []\<rparr>)"
proof (intro conjI impI)
  assume "id_1 < length logits \<and> id_0 < length logits"
  then show "classification logits (Fin r) id_1 id_0 = Inr (r \<le> logits ! id_1 - logits ! id_0)"
    by (simp add: classification_def)
next
  assume "id_1 < length logits \<and> id_0 < length logits"
    and "logits ! id_1 - logits ! id_0 = r"
  then show "classification logits (Fin r) id_1 id_0 = Inr True"
    by (simp add: classification_def)
next
  assume "id_1 < length logits \<and> id_0 < length logits"
    and "id_1 < length logits' \<and> id_0 < length logits' \<and>
       logits' ! id_1 = logits ! id_1 \<and> logits' ! id_0 = logits ! id_0"
  then show "classification logits' req id_1 id_0 = classification logits req id_1 id_0"
    by (simp add: classification_def)
next
  assume h: "(\<not> truthy ms \<or> (topk_ids (vm inp) k = Inr ids \<and> (id_1 \<in> set ids \<or> id_0 \<in> set ids))) \<and>
    id_1 < length (vm inp) \<and> id_0 < length (vm inp)"
  then show "vision_steps vm (Fin r) id_1 id_0 ms k (Suc s) inp n =
        Inr \<lparr>prediction = (r \<le> vm inp ! id_1 - vm inp ! id_0), final_input = inp,
             forward_passes = Suc n, printed = []\<rparr>"
    using vision_decide_unbounded[of ms id_1 vm inp id_0 "Fin r" k s n]
      vision_decide_ready[of vm inp k ids id_1 id_0 "Fin r" ms s n]
    by auto
next
  assume h: "(\<not> truthy ms \<or> (topk_ids (tm toks) k = Inr tids \<and> (id_1 \<in> set tids \<or> id_0 \<in> set tids))) \<and>
    id_1 < length (tm toks) \<and> id_0 < length (tm toks)"
  then show "text_steps tm (Fin r) id_1 id_0 ms k (Suc s) toks n =
        Inr \<lparr>prediction = (r \<le> tm toks ! id_1 - tm toks ! id_0), final_input = toks,
             forward_passes = Suc n, printed = []\<rparr>"
    using text_decide_unbounded[of ms id_1 tm toks id_0 "Fin r" k s n]
      text_decide_ready[of tm toks k tids id_1 id_0 "Fin r" ms s n]
    by auto
qed

text \<open>Logits 3 and 1 against a required difference of 2: the tie keeps.\<close>

theorem decision_is_inclusive_ge_witness:
  "classification [0, 3, 1] (Fin 2) 1 2 = Inr True \<and>
   classification [7, 3, 1] (Fin 2) 1 2 = classification [0, 3, 1] (Fin 2) 1 2 \<and>
   vision_steps keen_model (Fin 2) 1 2 (Some 10) (Some 1) (Suc 9) sample_input 0 =
     Inr \<lparr>prediction = True, final_input = sample_input, forward_passes = Suc 0, printed = []\<rparr> \<and>
   text_steps keen_text_model (Fin 2) 1 2 (Some 10) (Some 1) (Suc 9) [5] 0 =
     Inr \<lparr>prediction = True, final_input = [5], forward_passes = Suc 0, printed = []\<rparr>"
  using decision_is_inclusive_ge[where ?id_1.0 = 1 and ?id_0.0 = 2 and logits = "[0, 3, 1]"
      and logits' = "[7, 3, 1]" and r = 2 and req = "Fin 2" and ms = "Some 10" and k = "Some 1"
      and vm = keen_model and inp = sample_input and ids = "[1]" and s = 9 and n = 0
      and tm = keen_text_model and toks = "[5]" and tids = "[1]"]
  by (simp add: keen_model_def keen_text_model_def topk_keen truthy_def)

text \<open>
  C7. With \<open>max_steps = None\<close> the classifier makes exactly one forward pass, does not
  look at the top-k set (any \<open>topk\<close>, even an unusable one, gives the same result),
  appends nothing and returns the decision of that pass: whether the difference of
  the two target logits is at least the required difference (never so against NaN or
  \<open>+inf\<close>, always so against \<open>-inf\<close>).
\<close>

theorem no_bound_single_pass:
  "(id_1 < length (vm inp) \<and> id_0 < length (vm inp) \<longrightarrow>
      vision_classify vm inp req id_1 id_0 None k =
        Inr \<lparr>prediction =
               (case req of
                  Fin r \<Rightarrow> r \<le> vm inp ! id_1 - vm inp ! id_0
                | PosInf \<Rightarrow> False
                | NegInf \<Rightarrow> True
                | NaN \<Rightarrow> False),
             final_input = inp, forward_passes = 1, printed = []\<rparr>) \<and>
   (id_1 < length (tm toks) \<and> id_0 < length (tm toks) \<longrightarrow>
      text_classify tm toks req id_1 id_0 None k =
        Inr \<lparr>prediction =
               (case req of
                  Fin r \<Rightarrow> r \<le> tm toks ! id_1 - tm toks ! id_0
                | PosInf \<Rightarrow> False
                | NegInf \<Rightarrow> True
                | NaN \<Rightarrow> False),
             final_input = toks, forward_passes = 1, printed = []\<rparr>)"
  using vision_decide_unbounded[of None id_1 vm inp id_0 req k 0 0]
    text_decide_unbounded[of None id_1 tm toks id_0 req k 0 0]
  by (cases req) (simp_all add: vision_classify_def text_classify_def truthy_def)

text \<open>
  The stuck model, never ready, is scored at once when the bound is off: logits 1 and
  0 meet a required difference of 1 exactly and are kept, and miss one of 2.
\<close>

theorem no_bound_single_pass_witness:
  "vision_classify stuck_model sample_input (Fin 1) 1 2 None (Some 1) =
     Inr \<lparr>prediction = True, final_input = sample_input, forward_passes = 1, printed = []\<rparr> \<and>
   text_classify stuck_text_model [5] (Fin 2) 1 2 None None =
     Inr \<lparr>prediction = False, final_input = [5], forward_passes = 1, printed = []\<rparr>"
  using no_bound_single_pass[of 1 stuck_model sample_input 2 "Fin 1" "Some 1" stuck_text_model "[5]"]
    no_bound_single_pass[of 1 stuck_model sample_input 2 "Fin 2" None stuck_text_model "[5]"]
  by (simp add: stuck_model_def stuck_text_model_def)

text \<open>Text mode: an iteration that is not ready raises, and so a call that returns
  normally under a step bound has returned from its first pass.\<close>

lemma text_not_ready_raises:
  "truthy ms \<Longrightarrow> topk_ids (tm toks) k = Inr ids \<Longrightarrow> id_1 \<notin> set ids \<Longrightarrow> id_0 \<notin> set ids \<Longrightarrow>
   text_steps tm req id_1 id_0 ms k (Suc s) toks n = Inl IndexError"
  by (simp add: Let_def tensor_subscript_str_def split: list.splits)

lemma text_steps_returns:
  assumes "truthy ms" and "text_steps tm req id_1 id_0 ms k (Suc s) toks n = Inr out"
  shows "(\<exists>ids. topk_ids (tm toks) k = Inr ids \<and> (id_1 \<in> set ids \<or> id_0 \<in> set ids)) \<and>
         forward_passes out = Suc n \<and> final_input out = toks \<and> printed out = []"
proof (cases "topk_ids (tm toks) k")
  case (Inl e)
  with assms show ?thesis by (simp add: Let_def)
next
  case (Inr ids)
  show ?thesis
  proof (cases "id_1 \<notin> set ids \<and> id_0 \<notin> set ids")
    case True
    with text_not_ready_raises[where ms = ms and tm = tm and toks = toks and k = k
        and ids = ids and ?id_1.0 = id_1 and ?id_0.0 = id_0 and req = req and s = s and n = n]
      assms Inr
    show ?thesis by simp
  next
    case False
    with assms Inr show ?thesis
      by (auto simp add: Let_def split: sum.splits)
  qed
qed

text \<open>
  C10. In text mode the input is a bare token tensor, so an iteration whose top-k set
  holds neither target token raises (IndexError) instead of extending the sequence, in
  the loop, in \<^verbatim>\<open>text_classify\<close> and in the driver's iteration for that row; a
  step-bounded call of \<^verbatim>\<open>text_classify\<close> that returns normally has found
  a target token in the top-k set of its first pass and has appended nothing.
\<close>

theorem text_append_branch_raises:
  "(truthy ms \<and> topk_ids (tm toks) k = Inr ids \<and> id_1 \<notin> set ids \<and> id_0 \<notin> set ids \<longrightarrow>
      text_steps tm req id_1 id_0 ms k (Suc s) toks n = Inl IndexError) \<and>
   (0 < m \<and> topk_ids (tm toks) k = Inr ids \<and> id_1 \<notin> set ids \<and> id_0 \<notin> set ids \<longrightarrow>
      text_classify tm toks req id_1 id_0 (Some m) k = Inl IndexError) \<and>
   (0 < m \<and> text_classify tm toks req id_1 id_0 (Some m) k = Inr out \<longrightarrow>
      (\<exists>ids'. topk_ids (tm toks) k = Inr ids' \<and> (id_1 \<in> set ids' \<or> id_0 \<in> set ids')) \<and>
      forward_passes out = 1 \<and> final_input out = toks \<and> printed out = []) \<and>
   (0 < m \<and> max_steps a = Some m \<and> caption_column a = Some c \<and> getattr r c = Inr cap \<and>
    topk_ids (t_model env (t_chat_template env (t_format env (prompt a) cap))) (topk a) = Inr ids \<and>
    id_1 \<notin> set ids \<and> id_0 \<notin> set ids \<longrightarrow>
      text_row env a req id_1 id_0 r st = Inl IndexError)"
proof (intro conjI impI)
  assume "truthy ms \<and> topk_ids (tm toks) k = Inr ids \<and> id_1 \<notin> set ids \<and> id_0 \<notin> set ids"
  then show "text_steps tm req id_1 id_0 ms k (Suc s) toks n = Inl IndexError"
    using text_not_ready_raises by blast
next
  assume h: "0 < m \<and> topk_ids (tm toks) k = Inr ids \<and> id_1 \<notin> set ids \<and> id_0 \<notin> set ids"
  then obtain s' where s': "nat m = Suc s'" using steps_of_bound by blast
  from h have "truthy (Some m)" by (simp add: truthy_def)
  with h show "text_classify tm toks req id_1 id_0 (Some m) k = Inl IndexError"
    using text_not_ready_raises[where ms = "Some m" and tm = tm and toks = toks and k = k
        and ids = ids and ?id_1.0 = id_1 and ?id_0.0 = id_0 and req = req and s = s' and n = 0]
    by (simp add: text_classify_def s')
next
  assume h: "0 < m \<and> text_classify tm toks req id_1 id_0 (Some m) k = Inr out"
  then obtain s' where s': "nat m = Suc s'" using steps_of_bound by blast
  from h have t: "truthy (Some m)" by (simp add: truthy_def)
  from h have "text_steps tm req id_1 id_0 (Some m) k (Suc s') toks 0 = Inr out"
    by (simp add: text_classify_def s')
  from text_steps_returns[OF t this]
  have all: "(\<exists>ids'. topk_ids (tm toks) k = Inr ids' \<and> (id_1 \<in> set ids' \<or> id_0 \<in> set ids')) \<and>
      forward_passes out = 1 \<and> final_input out = toks \<and> printed out = []"
    by simp
  from all show "\<exists>ids'. topk_ids (tm toks) k = Inr ids' \<and> (id_1 \<in> set ids' \<or> id_0 \<in> set ids')"
    by blast
  from all show "forward_passes out = 1" by blast
  from all show "final_input out = toks" by blast
  from all show "printed out = []" by blast
next
  assume h: "0 < m \<and> max_steps a = Some m \<and> caption_column a = Some c \<and> getattr r c = Inr cap \<and>
    topk_ids (t_model env (t_chat_template env (t_format env (prompt a) cap))) (topk a) = Inr ids \<and>
    id_1 \<notin> set ids \<and> id_0 \<notin> set ids"
  then obtain s' where s': "nat m = Suc s'" using steps_of_bound by blast
  from h have t: "truthy (Some m)" by (simp add: truthy_def)
  from h have "text_classify (t_model env) (t_chat_template env (t_format env (prompt a) cap))
      req id_1 id_0 (Some m) (topk a) = Inl IndexError"
    using text_not_ready_raises[where ms = "Some m" and tm = "t_model env"
        and toks = "t_chat_template env (t_format env (prompt a) cap)" and k = "topk a"
        and ids = ids and ?id_1.0 = id_1 and ?id_0.0 = id_0 and req = req and s = s' and n = 0] t
    by (simp add: text_classify_def s')
  with h show "text_row env a req id_1 id_0 r st = Inl IndexError"
    by (simp add: text_row_def text_sample_def Let_def)
qed

text \<open>The stuck model raises at the first pass, in the classifier and in the driver.\<close>

theorem text_append_branch_raises_witness:
  "text_classify stuck_text_model [5] (Fin 0) 1 2 (Some 10) (Some 1) = Inl IndexError \<and>
   text_row (sample_text_env\<lparr>t_model := stuck_text_model\<rparr>) sample_text_args (Fin 0) 1 2
     [(''caption'', ''cat'')] init_state = Inl IndexError"
  using text_append_branch_raises[where ms = "Some 10" and tm = stuck_text_model
      and toks = "[5]" and k = "Some 1" and ids = "[0]" and ?id_1.0 = 1 and ?id_0.0 = 2
      and req = "Fin 0" and s = 0 and n = 0 and m = 10 and a = sample_text_args
      and c = "''caption''" and r = "[(''caption'', ''cat'')]" and cap = "''cat''"
      and env = "sample_text_env\<lparr>t_model := stuck_text_model\<rparr>" and st = init_state]
  by (simp add: stuck_text_model_def topk_stuck truthy_def sample_text_args_def
      sample_text_env_def getattr_def)

section \<open>Facts about the drivers\<close>

text \<open>The boolean mask, by position: the rows whose flag is set, in their order.\<close>

lemma boolean_mask_nth:
  "length flags = length rows \<Longrightarrow>
   boolean_mask rows flags = map (nth rows) (filter (nth flags) [0..<length rows])"
proof (induction rows flags rule: rev_induct2)
  case (4 x xs y ys)
  then have len: "length ys = length xs" by simp
  have f: "filter (nth (ys @ [y])) [0..<length xs] = filter (nth ys) [0..<length xs]"
    by (rule filter_cong) (simp_all add: nth_append len)
  have m: "map (nth (xs @ [x])) (filter (nth ys) [0..<length xs]) =
           map (nth xs) (filter (nth ys) [0..<length xs])"
    by (rule map_cong) (simp_all add: nth_append)
  have lhs: "boolean_mask (xs @ [x]) (ys @ [y]) = boolean_mask xs ys @ (if y then [x] else [])"
    using len by (simp add: boolean_mask_def)
  have last_flag: "(ys @ [y]) ! length xs = y"
    using len nth_append_length[of ys y] by simp
  have rhs: "map (nth (xs @ [x])) (filter (nth (ys @ [y])) [0..<length (xs @ [x])]) =
             map (nth xs) (filter (nth ys) [0..<length xs]) @ (if y then [x] else [])"
    using f m last_flag by simp
  from 4 len lhs rhs show ?case by simp
qed (simp_all add: boolean_mask_def)

text \<open>The safety save when it is due, and when it is not.\<close>

lemma safety_save_due:
  assumes "save_every a = Some k" "k \<noteq> 0" "k \<le> int (since_last_save st)"
    "length (results st) \<le> length (metadata a)"
  shows "safety_save a st =
     st\<lparr>saved_files := (saved_files st)(output_path a \<mapsto>
           \<lparr>csv_sep = delim a, csv_header = has_header a,
            csv_rows = map (nth (metadata a))
                         (filter (nth (results st)) [0..<length (results st)])\<rparr>),
        console := console st @ [Saved_checkpoint (output_path a)],
        since_last_save := 0\<rparr>"
proof -
  have "boolean_mask (take (length (results st)) (metadata a)) (results st) =
        map (nth (take (length (results st)) (metadata a)))
          (filter (nth (results st)) [0..<length (take (length (results st)) (metadata a))])"
    using assms(4) by (intro boolean_mask_nth) simp
  also have "\<dots> = map (nth (metadata a)) (filter (nth (results st)) [0..<length (results st)])"
    using assms(4) by (intro map_cong) (simp_all add: min_def)
  finally show ?thesis using assms(1-3) by (simp add: safety_save_def)
qed

lemma safety_save_not_due:
  "save_every a = Some k \<Longrightarrow> int (since_last_save st) < k \<Longrightarrow> safety_save a st = st"
  by (simp add: safety_save_def)

text \<open>What an iteration does to the counter and the files, and the loop by its last row.\<close>

lemma vision_row_counter:
  assumes "vision_row env a req t f r st = Inr st'"
  shows "since_last_save st' = since_last_save (safety_save a st) + 1 \<and>
         saved_files st' = saved_files (safety_save a st)"
  using assms
  by (auto simp add: vision_row_def Let_def split: sum.splits)

lemma vision_rows_snoc:
  "vision_rows env a req t f (rs @ [r]) st =
     (case vision_rows env a req t f rs st of
        Inl e \<Rightarrow> Inl e
      | Inr st1 \<Rightarrow> vision_row env a req t f r st1)"
  by (induction rs arbitrary: st) (auto split: sum.splits)

lemma vision_rows_before_first_save:
  assumes "save_every a = Some k"
  shows "vision_rows env a req t f rs st = Inr st' \<Longrightarrow>
         int (since_last_save st + length rs) \<le> k \<Longrightarrow>
         since_last_save st' = since_last_save st + length rs \<and>
         saved_files st' = saved_files st"
proof (induction rs arbitrary: st)
  case Nil
  then show ?case by simp
next
  case (Cons r rs)
  from Cons.prems(1) obtain st1 where
    row: "vision_row env a req t f r st = Inr st1"
    and rest: "vision_rows env a req t f rs st1 = Inr st'"
    by (auto split: sum.splits)
  from Cons.prems(2) have "int (since_last_save st) < k" by simp
  with assms have "safety_save a st = st" by (rule safety_save_not_due)
  with vision_row_counter[OF row] have st1: "since_last_save st1 = since_last_save st + 1"
    "saved_files st1 = saved_files st" by simp_all
  with Cons.prems(2) have "int (since_last_save st1 + length rs) \<le> k" by simp
  from Cons.IH[OF rest this] st1 show ?case by simp
qed

text \<open>What a completed iteration, and a completed loop, have added to the state.\<close>

lemma safety_save_keeps:
  "results (safety_save a st) = results st"
  "missing_or_corrupted (safety_save a st) = missing_or_corrupted st"
  "classifier_calls (safety_save a st) = classifier_calls st"
  "model_calls (safety_save a st) = model_calls st"
  by (simp_all add: safety_save_def)

lemma vision_row_Inr:
  assumes "vision_row env a req t f r st = Inr st'"
  shows "\<exists>s. vision_sample env a req t f r = Inr s \<and>
           results st' = results st @
             [case s of Inl msg \<Rightarrow> keep_corrupted a | Inr out \<Rightarrow> prediction out] \<and>
           missing_or_corrupted st' = missing_or_corrupted st +
             (case s of Inl msg \<Rightarrow> 1 | Inr out \<Rightarrow> 0) \<and>
           classifier_calls st' = classifier_calls st +
             (case s of Inl msg \<Rightarrow> 0 | Inr out \<Rightarrow> 1)"
  using assms
  by (auto simp add: vision_row_def Let_def safety_save_keeps split: sum.splits)

lemma vision_rows_Inr:
  "vision_rows env a req t f rs st = Inr st' \<Longrightarrow>
   length (results st') = length (results st) + length rs \<and>
   (\<forall>i<length (results st). results st' ! i = results st ! i) \<and>
   (\<forall>i<length rs. \<exists>s. vision_sample env a req t f (rs ! i) = Inr s \<and>
        results st' ! (length (results st) + i) =
          (case s of Inl msg \<Rightarrow> keep_corrupted a | Inr out \<Rightarrow> prediction out)) \<and>
   missing_or_corrupted st' = missing_or_corrupted st +
        length (filter (\<lambda>r. \<exists>msg. vision_sample env a req t f r = Inr (Inl msg)) rs) \<and>
   classifier_calls st' = classifier_calls st +
        length (filter (\<lambda>r. \<exists>out. vision_sample env a req t f r = Inr (Inr out)) rs)"
proof (induction rs arbitrary: st)
  case Nil
  then show ?case by simp
next
  case (Cons r rs)
  from Cons.prems obtain st1 where
    row: "vision_row env a req t f r st = Inr st1"
    and rest: "vision_rows env a req t f rs st1 = Inr st'"
    by (auto split: sum.splits)
  from vision_row_Inr[OF row] obtain s where
    s: "vision_sample env a req t f r = Inr s"
    and res1: "results st1 = results st @
         [case s of Inl msg \<Rightarrow> keep_corrupted a | Inr out \<Rightarrow> prediction out]"
    and mis1: "missing_or_corrupted st1 = missing_or_corrupted st +
         (case s of Inl msg \<Rightarrow> 1 | Inr out \<Rightarrow> 0)"
    and cal1: "classifier_calls st1 = classifier_calls st +
         (case s of Inl msg \<Rightarrow> 0 | Inr out \<Rightarrow> 1)"
    by blast
  note IH = Cons.IH[OF rest]
  have len: "length (results st') = length (results st) + length (r # rs)"
    using IH res1 by simp
  have old: "\<forall>i<length (results st). results st' ! i = results st ! i"
    using IH res1 by (simp add: nth_append)
  have here: "results st' ! length (results st) =
      (case s of Inl msg \<Rightarrow> keep_corrupted a | Inr out \<Rightarrow> prediction out)"
    using IH res1 by (simp add: nth_append)
  have new: "\<exists>s. vision_sample env a req t f ((r # rs) ! i) = Inr s \<and>
        results st' ! (length (results st) + i) =
          (case s of Inl msg \<Rightarrow> keep_corrupted a | Inr out \<Rightarrow> prediction out)"
    if "i < length (r # rs)" for i
  proof (cases i)
    case 0
    then show ?thesis using s here by simp
  next
    case (Suc j)
    with that have "j < length rs" by simp
    with IH obtain s' where "vision_sample env a req t f (rs ! j) = Inr s'"
      "results st' ! (length (results st1) + j) =
          (case s' of Inl msg \<Rightarrow> keep_corrupted a | Inr out \<Rightarrow> prediction out)"
      by blast
    then show ?thesis using Suc res1 by simp
  qed
  have mis: "missing_or_corrupted st' = missing_or_corrupted st +
        length (filter (\<lambda>r. \<exists>msg. vision_sample env a req t f r = Inr (Inl msg)) (r # rs))"
    using IH mis1 s by (cases s) simp_all
  have cal: "classifier_calls st' = classifier_calls st +
        length (filter (\<lambda>r. \<exists>out. vision_sample env a req t f r = Inr (Inr out)) (r # rs))"
    using IH cal1 s by (cases s) simp_all
  from len old new mis cal show ?case by blast
qed



lemma vision_sample_unreadable:
  assumes "getattr r (image_column a) = Inr path"
    and "v_image_open env path = File_not_found \<or> v_image_open env path = Unidentified_image"
    and "vision_sample env a req t f r = Inr s"
  shows "\<exists>msg. s = Inl msg"
  using assms by (auto simp add: vision_sample_def split: sum.splits)

text \<open>The sample run, row by row.\<close>

lemma keen_classify:
  "vision_classify keen_model sample_input (Fin 0) (Suc 0) 2 (Some 10) (Some 1) =
     Inr \<lparr>prediction = True, final_input = sample_input, forward_passes = 1, printed = []\<rparr>"
  using vision_decide_ready[of keen_model sample_input "Some 1" "[1]" 1 2 "Fin 0" "Some 10" 9 0]
  by (simp add: vision_classify_def keen_model_def topk_keen)

lemma sample_row_1:
  "vision_row sample_env sample_args (Fin 0) 1 2
     [(''caption'', ''cat''), (''image'', ''a.png'')] init_state =
   Inr \<lparr>results = [True], since_last_save = 1, missing_or_corrupted = 0,
        saved_files = Map.empty, console = [], classifier_calls = 1, model_calls = 1\<rparr>"
  by (simp add: vision_row_def vision_sample_def vision_prompt_def getattr_def safety_save_def
      sample_env_def sample_args_def init_state_def keen_classify Let_def)

lemma sample_row_2:
  "vision_row sample_env sample_args (Fin 0) 1 2
     [(''caption'', ''dog''), (''image'', ''gone.png'')]
     \<lparr>results = [True], since_last_save = 1, missing_or_corrupted = 0,
      saved_files = Map.empty, console = [], classifier_calls = 1, model_calls = 1\<rparr> =
   Inr \<lparr>results = [True, False], since_last_save = 1, missing_or_corrupted = 1,
        saved_files = [''out.tsv'' \<mapsto>
          \<lparr>csv_sep = ''|'', csv_header = True,
           csv_rows = [[(''caption'', ''cat''), (''image'', ''a.png'')]]\<rparr>],
        console = [Saved_checkpoint ''out.tsv'', Image_missing ''gone.png''],
        classifier_calls = 1, model_calls = 1\<rparr>"
  by (simp add: vision_row_def vision_sample_def vision_prompt_def getattr_def safety_save_def
      sample_env_def sample_args_def boolean_mask_def Let_def)

lemma sample_run:
  "vision_filter_run sample_env sample_args =
   Inr \<lparr>results = [True, False], since_last_save = 1, missing_or_corrupted = 1,
        saved_files = [''out.tsv'' \<mapsto>
          \<lparr>csv_sep = ''|'', csv_header = True,
           csv_rows = [[(''caption'', ''cat''), (''image'', ''a.png'')]]\<rparr>],
        console = [Saved_checkpoint ''out.tsv'', Image_missing ''gone.png''],
        classifier_calls = 1, model_calls = 1\<rparr>"
proof -
  have md: "metadata sample_args = [[(''caption'', ''cat''), (''image'', ''a.png'')],
                  [(''caption'', ''dog''), (''image'', ''gone.png'')]]"
    and th: "threshold sample_args = 1 / 2"
    by (simp_all add: sample_args_def)
  have ids: "first_id (v_tokenize sample_env ''1'') = Inr 1"
    "first_id (v_tokenize sample_env ''0'') = Inr 2"
    by (simp_all add: first_id_def sample_env_def)
  show ?thesis
    by (simp only: vision_filter_run_def th sample_req ids md vision_rows.simps
        sample_row_1 sample_row_2 sum.case)
qed



section \<open>The claims about the drivers\<close>

text \<open>
  C4 (as amended). In vision mode, a row whose image is missing (FileNotFoundError) or
  cannot be identified as an image (UnidentifiedImageError) does not make the driver
  raise: the iteration appends exactly \<open>keep_corrupted\<close> to the results, adds exactly
  one to the missing or corrupted counter and calls neither the classifier nor the
  model. Over a completed run every row is either counted as skipped or one classifier
  call, and the result of each such row is \<open>keep_corrupted\<close>. Any other failure to
  open the image is not caught: the iteration raises.
\<close>

theorem unreadable_image_row_skipped:
  "(vision_prompt env a r = Inr ptext \<and> getattr r (image_column a) = Inr path \<and>
    (v_image_open env path = File_not_found \<or> v_image_open env path = Unidentified_image) \<longrightarrow>
      (\<exists>st'. vision_row env a req t f r st = Inr st' \<and>
         results st' = results st @ [keep_corrupted a] \<and>
         missing_or_corrupted st' = missing_or_corrupted st + 1 \<and>
         classifier_calls st' = classifier_calls st \<and>
         model_calls st' = model_calls st)) \<and>
   (vision_filter_run env a = Inr fin \<longrightarrow>
      classifier_calls fin + missing_or_corrupted fin = length (metadata a) \<and>
      (\<forall>i<length (metadata a). \<forall>p.
         getattr (metadata a ! i) (image_column a) = Inr p \<and>
         (v_image_open env p = File_not_found \<or> v_image_open env p = Unidentified_image) \<longrightarrow>
           results fin ! i = keep_corrupted a)) \<and>
   (vision_prompt env a r = Inr ptext \<and> getattr r (image_column a) = Inr path \<and>
    v_image_open env path = Open_failed \<longrightarrow>
      vision_row env a req t f r st = Inl OSError)"
proof (intro conjI impI)
  assume h: "vision_prompt env a r = Inr ptext \<and> getattr r (image_column a) = Inr path \<and>
    (v_image_open env path = File_not_found \<or> v_image_open env path = Unidentified_image)"
  then obtain msg where "vision_sample env a req t f r = Inr (Inl msg)"
    by (auto simp add: vision_sample_def)
  then show "\<exists>st'. vision_row env a req t f r st = Inr st' \<and>
         results st' = results st @ [keep_corrupted a] \<and>
         missing_or_corrupted st' = missing_or_corrupted st + 1 \<and>
         classifier_calls st' = classifier_calls st \<and>
         model_calls st' = model_calls st"
    by (simp add: vision_row_def Let_def safety_save_keeps)
next
  assume run: "vision_filter_run env a = Inr fin"
  then obtain req t f where
    rows: "vision_rows env a req t f (metadata a) init_state = Inr fin"
    by (auto simp add: vision_filter_run_def split: sum.splits)
  note inv = vision_rows_Inr[OF rows]
  have part: "length (filter (\<lambda>r. \<exists>out. vision_sample env a req t f r = Inr (Inr out)) (metadata a)) +
        length (filter (\<lambda>r. \<exists>msg. vision_sample env a req t f r = Inr (Inl msg)) (metadata a)) =
        length (metadata a)"
  proof -
    have every: "\<forall>r \<in> set (metadata a). \<exists>s. vision_sample env a req t f r = Inr s"
    proof
      fix r assume "r \<in> set (metadata a)"
      then obtain i where "i < length (metadata a)" "metadata a ! i = r"
        by (auto simp add: in_set_conv_nth)
      with inv show "\<exists>s. vision_sample env a req t f r = Inr s" by blast
    qed
    have "filter (\<lambda>r. \<exists>msg. vision_sample env a req t f r = Inr (Inl msg)) (metadata a) =
          filter (\<lambda>r. \<not> (\<exists>out. vision_sample env a req t f r = Inr (Inr out))) (metadata a)"
    proof (rule filter_cong[OF refl])
      fix r assume "r \<in> set (metadata a)"
      with every obtain s where "vision_sample env a req t f r = Inr s" by blast
      then show "(\<exists>msg. vision_sample env a req t f r = Inr (Inl msg)) =
                 (\<not> (\<exists>out. vision_sample env a req t f r = Inr (Inr out)))"
        by (cases s) simp_all
    qed
    then show ?thesis
      using sum_length_filter_compl[of "\<lambda>r. \<exists>out. vision_sample env a req t f r = Inr (Inr out)"
          "metadata a"]
      by simp
  qed
  from inv part show "classifier_calls fin + missing_or_corrupted fin = length (metadata a)"
    by (simp add: init_state_def)
  show "\<forall>i<length (metadata a). \<forall>p.
         getattr (metadata a ! i) (image_column a) = Inr p \<and>
         (v_image_open env p = File_not_found \<or> v_image_open env p = Unidentified_image) \<longrightarrow>
           results fin ! i = keep_corrupted a"
  proof (intro allI impI)
    fix i p
    assume i: "i < length (metadata a)"
      and bad: "getattr (metadata a ! i) (image_column a) = Inr p \<and>
         (v_image_open env p = File_not_found \<or> v_image_open env p = Unidentified_image)"
    from inv i obtain s where s: "vision_sample env a req t f (metadata a ! i) = Inr s"
      and res: "results fin ! (length (results init_state) + i) =
          (case s of Inl msg \<Rightarrow> keep_corrupted a | Inr out \<Rightarrow> prediction out)"
      by blast
    from vision_sample_unreadable[OF _ _ s] bad obtain msg where "s = Inl msg" by blast
    with res show "results fin ! i = keep_corrupted a" by (simp add: init_state_def)
  qed
next
  assume "vision_prompt env a r = Inr ptext \<and> getattr r (image_column a) = Inr path \<and>
    v_image_open env path = Open_failed"
  then show "vision_row env a req t f r st = Inl OSError"
    by (simp add: vision_row_def vision_sample_def Let_def)
qed

text \<open>The second sample row names a file that does not exist.\<close>

theorem unreadable_image_row_skipped_witness:
  "(\<exists>st'. vision_row sample_env sample_args (Fin 0) 1 2
            [(''caption'', ''dog''), (''image'', ''gone.png'')] init_state = Inr st' \<and>
         results st' = [False] \<and> missing_or_corrupted st' = 1 \<and>
         classifier_calls st' = 0 \<and> model_calls st' = 0) \<and>
   [True, False] ! 1 = keep_corrupted sample_args"
proof -
  have p: "vision_prompt sample_env sample_args [(''caption'', ''dog''), (''image'', ''gone.png'')]
             = Inr ''qdog''"
    by (simp add: vision_prompt_def sample_env_def sample_args_def getattr_def)
  have g: "getattr [(''caption'', ''dog''), (''image'', ''gone.png'')] (image_column sample_args)
             = Inr ''gone.png''"
    by (simp add: sample_args_def getattr_def)
  have g': "getattr (metadata sample_args ! 1) (image_column sample_args) = Inr ''gone.png''"
    by (simp add: sample_args_def getattr_def)
  have o: "v_image_open sample_env ''gone.png'' = File_not_found"
    by (simp add: sample_env_def)
  have len: "(1::nat) < length (metadata sample_args)" by (simp add: sample_args_def)
  note inst = unreadable_image_row_skipped[where env = sample_env and a = sample_args
      and r = "[(''caption'', ''dog''), (''image'', ''gone.png'')]" and ptext = "''qdog''"
      and path = "''gone.png''" and req = "Fin 0" and t = 1 and f = 2 and st = init_state
      and fin = "\<lparr>results = [True, False], since_last_save = 1, missing_or_corrupted = 1,
        saved_files = [''out.tsv'' \<mapsto>
          \<lparr>csv_sep = ''|'', csv_header = True,
           csv_rows = [[(''caption'', ''cat''), (''image'', ''a.png'')]]\<rparr>],
        console = [Saved_checkpoint ''out.tsv'', Image_missing ''gone.png''],
        classifier_calls = 1, model_calls = 1\<rparr>"]
  from inst p g o have first: "\<exists>st'. vision_row sample_env sample_args (Fin 0) 1 2
            [(''caption'', ''dog''), (''image'', ''gone.png'')] init_state = Inr st' \<and>
         results st' = results init_state @ [keep_corrupted sample_args] \<and>
         missing_or_corrupted st' = missing_or_corrupted init_state + 1 \<and>
         classifier_calls st' = classifier_calls init_state \<and>
         model_calls st' = model_calls init_state"
    by blast
  from inst sample_run len g' o have second: "[True, False] ! 1 = keep_corrupted sample_args"
    by fastforce
  from first second show ?thesis
    by (simp add: init_state_def sample_args_def)
qed

text \<open>
  C4 as the claim states it fails there: the first sample image cannot be opened as a
  file, and the iteration, and with it the run, raises instead of recording
  \<open>keep_corrupted\<close>.
\<close>

theorem unreadable_image_raises_counterexample:
  "v_image_open unreadable_env ''a.png'' = Open_failed \<and>
   vision_row unreadable_env sample_args (Fin 0) 1 2
     [(''caption'', ''cat''), (''image'', ''a.png'')] init_state = Inl OSError \<and>
   vision_filter unreadable_env sample_args = Inl OSError"
proof -
  have row: "vision_row unreadable_env sample_args (Fin 0) (Suc 0) 2
     [(''caption'', ''cat''), (''image'', ''a.png'')] init_state = Inl OSError"
    by (simp add: vision_row_def vision_sample_def vision_prompt_def getattr_def
        unreadable_env_def sample_env_def sample_args_def Let_def)
  have run: "vision_filter unreadable_env sample_args = Inl OSError"
    using row
    by (simp add: vision_filter_def vision_filter_run_def first_id_def
        unreadable_env_def sample_env_def sample_args_def sample_req)
  from row run show ?thesis by (simp add: unreadable_env_def)
qed



text \<open>The loop over the whole sample dataset.\<close>

lemma sample_rows:
  "vision_rows sample_env sample_args (Fin 0) 1 2 (metadata sample_args) init_state =
   Inr \<lparr>results = [True, False], since_last_save = 1, missing_or_corrupted = 1,
        saved_files = [''out.tsv'' \<mapsto>
          \<lparr>csv_sep = ''|'', csv_header = True,
           csv_rows = [[(''caption'', ''cat''), (''image'', ''a.png'')]]\<rparr>],
        console = [Saved_checkpoint ''out.tsv'', Image_missing ''gone.png''],
        classifier_calls = 1, model_calls = 1\<rparr>"
proof -
  have md: "metadata sample_args = [[(''caption'', ''cat''), (''image'', ''a.png'')],
                  [(''caption'', ''dog''), (''image'', ''gone.png'')]]"
    by (simp add: sample_args_def)
  show ?thesis
    by (simp only: md vision_rows.simps sample_row_1 sample_row_2 sum.case)
qed

text \<open>
  C6. With a checkpoint interval \<open>k\<close>, a checkpoint write puts at the output path,
  replacing what was there, a file with the configured separator and header flag whose
  rows are exactly the rows processed so far whose result is true, in dataset order,
  and sets the counter to zero. After the first \<open>k\<close> rows nothing has been written
  yet, the counter stands at \<open>k\<close>, and the write at the head of the next iteration
  holds exactly the rows among the first \<open>k\<close> whose result is true; once that
  iteration is done the counter is one.
\<close>

theorem checkpoint_holds_kept_rows:
  "(save_every a = Some k \<and> 0 < k \<and> k \<le> int (since_last_save st) \<and>
    length (results st) \<le> length (metadata a) \<longrightarrow>
      safety_save a st =
        st\<lparr>saved_files := (saved_files st)(output_path a \<mapsto>
              \<lparr>csv_sep = delim a, csv_header = has_header a,
               csv_rows = map (nth (metadata a))
                            (filter (nth (results st)) [0..<length (results st)])\<rparr>),
           console := console st @ [Saved_checkpoint (output_path a)],
           since_last_save := 0\<rparr>) \<and>
   (save_every a = Some (int n) \<and> 0 < n \<and> n \<le> length (metadata a) \<and>
    vision_rows env a req t f (take n (metadata a)) init_state = Inr mid \<longrightarrow>
      length (results mid) = n \<and> since_last_save mid = n \<and> saved_files mid = Map.empty \<and>
      saved_files (safety_save a mid) (output_path a) =
        Some \<lparr>csv_sep = delim a, csv_header = has_header a,
              csv_rows = map (nth (metadata a)) (filter (nth (results mid)) [0..<n])\<rparr> \<and>
      since_last_save (safety_save a mid) = 0) \<and>
   (save_every a = Some (int n) \<and> 0 < n \<and> n < length (metadata a) \<and>
    vision_rows env a req t f (take (Suc n) (metadata a)) init_state = Inr fin \<longrightarrow>
      saved_files fin (output_path a) =
        Some \<lparr>csv_sep = delim a, csv_header = has_header a,
              csv_rows = map (nth (metadata a)) (filter (nth (results fin)) [0..<n])\<rparr> \<and>
      since_last_save fin = 1)"
proof -
  have general: "safety_save a st =
        st\<lparr>saved_files := (saved_files st)(output_path a \<mapsto>
              \<lparr>csv_sep = delim a, csv_header = has_header a,
               csv_rows = map (nth (metadata a))
                            (filter (nth (results st)) [0..<length (results st)])\<rparr>),
           console := console st @ [Saved_checkpoint (output_path a)],
           since_last_save := 0\<rparr>"
    if "save_every a = Some k \<and> 0 < k \<and> k \<le> int (since_last_save st) \<and>
        length (results st) \<le> length (metadata a)"
    using that by (intro safety_save_due[of a k st]) simp_all
  have first_k: "length (results mid) = n \<and> since_last_save mid = n \<and>
      saved_files mid = Map.empty \<and>
      saved_files (safety_save a mid) (output_path a) =
        Some \<lparr>csv_sep = delim a, csv_header = has_header a,
              csv_rows = map (nth (metadata a)) (filter (nth (results mid)) [0..<n])\<rparr> \<and>
      since_last_save (safety_save a mid) = 0"
    if h: "save_every a = Some (int n) \<and> 0 < n \<and> n \<le> length (metadata a) \<and>
        vision_rows env a req t f (take n (metadata a)) init_state = Inr mid"
    for mid
  proof -
    from h have rows: "vision_rows env a req t f (take n (metadata a)) init_state = Inr mid"
      and se: "save_every a = Some (int n)" and n: "0 < n" "n \<le> length (metadata a)"
      by simp_all
    from vision_rows_Inr[OF rows] n have len: "length (results mid) = n"
      by (simp add: init_state_def)
    from vision_rows_before_first_save[OF se rows] n
    have cnt: "since_last_save mid = n" and files: "saved_files mid = Map.empty"
      by (simp_all add: init_state_def)
    from se n cnt len have "safety_save a mid =
        mid\<lparr>saved_files := (saved_files mid)(output_path a \<mapsto>
              \<lparr>csv_sep = delim a, csv_header = has_header a,
               csv_rows = map (nth (metadata a))
                            (filter (nth (results mid)) [0..<length (results mid)])\<rparr>),
           console := console mid @ [Saved_checkpoint (output_path a)],
           since_last_save := 0\<rparr>"
      by (intro safety_save_due[of a "int n" mid]) simp_all
    with len cnt files show ?thesis by simp
  qed
  have next_row: "saved_files fin (output_path a) =
        Some \<lparr>csv_sep = delim a, csv_header = has_header a,
              csv_rows = map (nth (metadata a)) (filter (nth (results fin)) [0..<n])\<rparr> \<and>
      since_last_save fin = 1"
    if h: "save_every a = Some (int n) \<and> 0 < n \<and> n < length (metadata a) \<and>
        vision_rows env a req t f (take (Suc n) (metadata a)) init_state = Inr fin"
  proof -
    from h have n: "n < length (metadata a)" by simp
    then have split: "take (Suc n) (metadata a) = take n (metadata a) @ [metadata a ! n]"
      by (rule take_Suc_conv_app_nth)
    from h obtain mid where
      mid: "vision_rows env a req t f (take n (metadata a)) init_state = Inr mid"
      and row: "vision_row env a req t f (metadata a ! n) mid = Inr fin"
      by (auto simp add: split vision_rows_snoc split: sum.splits)
    from first_k[of mid] h mid have
      len: "length (results mid) = n"
      and saved: "saved_files (safety_save a mid) (output_path a) =
        Some \<lparr>csv_sep = delim a, csv_header = has_header a,
              csv_rows = map (nth (metadata a)) (filter (nth (results mid)) [0..<n])\<rparr>"
      and zero: "since_last_save (safety_save a mid) = 0"
      by simp_all
    from vision_row_Inr[OF row] len have same: "\<forall>i<n. results fin ! i = results mid ! i"
      by (auto simp add: nth_append)
    then have "filter (nth (results fin)) [0..<n] = filter (nth (results mid)) [0..<n]"
      by (intro filter_cong) simp_all
    with vision_row_counter[OF row] saved zero show ?thesis by simp
  qed
  from general first_k[of mid] next_row show ?thesis by blast
qed

text \<open>The sample run saves after its first row: the file holds that row alone.\<close>

theorem checkpoint_holds_kept_rows_witness:
  "saved_files (projr (vision_filter_run sample_env sample_args)) ''out.tsv'' =
     Some \<lparr>csv_sep = ''|'', csv_header = True,
           csv_rows = [[(''caption'', ''cat''), (''image'', ''a.png'')]]\<rparr> \<and>
   since_last_save (projr (vision_filter_run sample_env sample_args)) = 1"
proof -
  let ?fin = "\<lparr>results = [True, False], since_last_save = 1, missing_or_corrupted = 1,
        saved_files = [''out.tsv'' \<mapsto>
          \<lparr>csv_sep = ''|'', csv_header = True,
           csv_rows = [[(''caption'', ''cat''), (''image'', ''a.png'')]]\<rparr>],
        console = [Saved_checkpoint ''out.tsv'', Image_missing ''gone.png''],
        classifier_calls = 1, model_calls = 1\<rparr>"
  have tk: "take (Suc 1) (metadata sample_args) = metadata sample_args"
    by (simp add: sample_args_def)
  have rows: "vision_rows sample_env sample_args (Fin 0) 1 2
      (take (Suc 1) (metadata sample_args)) init_state = Inr ?fin"
    using sample_rows by (simp only: tk)
  have pre: "save_every sample_args = Some (int 1)" "(1::nat) < length (metadata sample_args)"
    by (simp_all add: sample_args_def)
  from checkpoint_holds_kept_rows[where a = sample_args and n = 1 and env = sample_env
      and req = "Fin 0" and t = 1 and f = 2 and fin = ?fin] pre rows
  have "saved_files ?fin (output_path sample_args) =
        Some \<lparr>csv_sep = delim sample_args, csv_header = has_header sample_args,
              csv_rows = map (nth (metadata sample_args))
                           (filter (nth (results ?fin)) [0..<1])\<rparr> \<and>
      since_last_save ?fin = 1"
    by simp
  then have "saved_files ?fin ''out.tsv'' =
        Some \<lparr>csv_sep = ''|'', csv_header = True,
              csv_rows = [[(''caption'', ''cat''), (''image'', ''a.png'')]]\<rparr> \<and>
      since_last_save ?fin = 1"
    by (simp add: sample_args_def)
  then show ?thesis
    unfolding sample_run by simp
qed

section \<open>The claims about the threshold\<close>




text \<open>
  C9 (as amended). No threshold is validated. A threshold of exactly 1 aborts the run
  before any row is touched, by the division by zero of the transform. Every other
  threshold outside the open interval, that is at most 0 or at least the next double
  above 1, which is \<open>1 + 2^-52\<close>, goes into the loop, and the rows are classified
  against a bound that is not finite: NaN for a threshold above 1 and for a threshold
  of at most \<open>-2^-147\<close> (every scored row is discarded), \<open>-inf\<close> for a threshold from
  \<open>-2^-150\<close> to 0, where the ratio becomes a float32 zero (every scored row is kept),
  and one of the two in between.
\<close>

theorem threshold_never_validated:
  "req_logit_diff 1 = Inl ZeroDivisionError \<and>
   (threshold a = 1 \<longrightarrow>
      vision_filter_run env a = Inl ZeroDivisionError \<and>
      vision_filter env a = Inl ZeroDivisionError) \<and>
   (threshold b = 1 \<longrightarrow>
      text_filter_run tenv b = Inl ZeroDivisionError \<and>
      text_filter tenv b = Inl ZeroDivisionError) \<and>
   (t \<le> 0 \<or> 1 + 1 / 2 ^ 52 \<le> t \<longrightarrow>
      req_logit_diff t = Inr NegInf \<or> req_logit_diff t = Inr NaN) \<and>
   (1 + 1 / 2 ^ 52 \<le> t \<longrightarrow> req_logit_diff t = Inr NaN) \<and>
   (t \<le> - (1 / 2 ^ 147) \<longrightarrow> req_logit_diff t = Inr NaN) \<and>
   (- (1 / 2 ^ 150) \<le> t \<and> t \<le> 0 \<longrightarrow> req_logit_diff t = Inr NegInf) \<and>
   ((threshold a \<le> 0 \<or> 1 + 1 / 2 ^ 52 \<le> threshold a) \<and>
    first_id (v_tokenize env ''1'') = Inr t1 \<and> first_id (v_tokenize env ''0'') = Inr t0 \<longrightarrow>
      (\<exists>req. req_logit_diff (threshold a) = Inr req \<and> (req = NegInf \<or> req = NaN) \<and>
         vision_filter_run env a = vision_rows env a req t1 t0 (metadata a) init_state)) \<and>
   ((threshold b \<le> 0 \<or> 1 + 1 / 2 ^ 52 \<le> threshold b) \<and>
    first_id (t_tokenize tenv ''1'') = Inr t1 \<and> first_id (t_tokenize tenv ''0'') = Inr t0 \<longrightarrow>
      (\<exists>req. req_logit_diff (threshold b) = Inr req \<and> (req = NegInf \<or> req = NaN) \<and>
         text_filter_run tenv b = text_rows tenv b req t1 t0 (metadata b) init_state)) \<and>
   (id_1 < length logits \<and> id_0 < length logits \<longrightarrow>
      classification logits NegInf id_1 id_0 = Inr True \<and>
      classification logits NaN id_1 id_0 = Inr False)"
proof -
  have outside: "req_logit_diff u = Inr NegInf \<or> req_logit_diff u = Inr NaN"
    if "u \<le> 0 \<or> 1 + 1 / 2 ^ 52 \<le> u" for u
    using that req_nonpos[of u] req_above_one[of u] by blast
  have nan: "req_logit_diff t = Inr NaN" if "1 + 1 / 2 ^ 52 \<le> t"
    using that by (rule req_above_one)
  have neg: "req_logit_diff t = Inr NaN" if "t \<le> - (1 / 2 ^ 147)"
    using that by (rule req_clearly_negative)
  have tiny: "req_logit_diff t = Inr NegInf" if "- (1 / 2 ^ 150) \<le> t \<and> t \<le> 0"
    using that req_tiny_nonpos[of t] by blast
  have one: "req_logit_diff 1 = Inl ZeroDivisionError"
    by (simp add: req_logit_diff_def float64_value_def round_binary_zero)
  have v1: "vision_filter_run env a = Inl ZeroDivisionError \<and>
      vision_filter env a = Inl ZeroDivisionError" if "threshold a = 1"
    using that one by (simp add: vision_filter_run_def vision_filter_def)
  have x1: "text_filter_run tenv b = Inl ZeroDivisionError \<and>
      text_filter tenv b = Inl ZeroDivisionError" if "threshold b = 1"
    using that one by (simp add: text_filter_run_def text_filter_def)
  have v: "\<exists>req. req_logit_diff (threshold a) = Inr req \<and> (req = NegInf \<or> req = NaN) \<and>
         vision_filter_run env a = vision_rows env a req t1 t0 (metadata a) init_state"
    if h: "(threshold a \<le> 0 \<or> 1 + 1 / 2 ^ 52 \<le> threshold a) \<and>
      first_id (v_tokenize env ''1'') = Inr t1 \<and> first_id (v_tokenize env ''0'') = Inr t0"
  proof -
    from h outside[of "threshold a"]
    obtain req where "req_logit_diff (threshold a) = Inr req" "req = NegInf \<or> req = NaN"
      by blast
    with h show ?thesis by (simp add: vision_filter_run_def)
  qed
  have x: "\<exists>req. req_logit_diff (threshold b) = Inr req \<and> (req = NegInf \<or> req = NaN) \<and>
         text_filter_run tenv b = text_rows tenv b req t1 t0 (metadata b) init_state"
    if h: "(threshold b \<le> 0 \<or> 1 + 1 / 2 ^ 52 \<le> threshold b) \<and>
      first_id (t_tokenize tenv ''1'') = Inr t1 \<and> first_id (t_tokenize tenv ''0'') = Inr t0"
  proof -
    from h outside[of "threshold b"]
    obtain req where "req_logit_diff (threshold b) = Inr req" "req = NegInf \<or> req = NaN"
      by blast
    with h show ?thesis by (simp add: text_filter_run_def)
  qed
  have c: "classification logits NegInf id_1 id_0 = Inr True \<and>
      classification logits NaN id_1 id_0 = Inr False"
    if "id_1 < length logits \<and> id_0 < length logits"
    using that by (simp add: classification_def)
  from one v1 x1 outside[of t] nan neg tiny v x c show ?thesis by blast
qed

text \<open>Threshold 1 on the sample data, and the bounds for thresholds 2 and \<open>-2^-200\<close>.\<close>

theorem threshold_never_validated_witness:
  "vision_filter sample_env (sample_args\<lparr>threshold := 1\<rparr>) = Inl ZeroDivisionError \<and>
   text_filter sample_text_env (sample_text_args\<lparr>threshold := 1\<rparr>) = Inl ZeroDivisionError \<and>
   req_logit_diff 2 = Inr NaN \<and>
   req_logit_diff (- (1 / 2 ^ 200)) = Inr NegInf \<and>
   vision_filter_run sample_env (sample_args\<lparr>threshold := 2\<rparr>) =
     vision_rows sample_env (sample_args\<lparr>threshold := 2\<rparr>) NaN 1 2
       (metadata (sample_args\<lparr>threshold := 2\<rparr>)) init_state \<and>
   classification [0, 3, 1] NegInf 1 2 = Inr True \<and>
   classification [0, 3, 1] NaN 1 2 = Inr False"
proof -
  have ids: "first_id (v_tokenize sample_env ''1'') = Inr 1"
    "first_id (v_tokenize sample_env ''0'') = Inr 2"
    by (simp_all add: first_id_def sample_env_def)
  have th1: "threshold (sample_args\<lparr>threshold := 1\<rparr>) = 1"
    "threshold (sample_text_args\<lparr>threshold := 1\<rparr>) = 1" by simp_all
  have th2: "threshold (sample_args\<lparr>threshold := 2\<rparr>) = 2" by simp
  have big: "(1::real) + 1 / 2 ^ 52 \<le> 2" by simp
  have small: "- (1 / 2 ^ 150) \<le> (- (1 / 2 ^ 200) :: real)" "(- (1 / 2 ^ 200) :: real) \<le> 0"
    by simp_all
  have len: "(1::nat) < length [0::real, 3, 1]" "(2::nat) < length [0::real, 3, 1]"
    by simp_all
  note one = threshold_never_validated[where a = "sample_args\<lparr>threshold := 1\<rparr>"
      and b = "sample_text_args\<lparr>threshold := 1\<rparr>" and env = sample_env
      and tenv = sample_text_env and t = 2 and logits = "[0, 3, 1]" and ?id_1.0 = 1
      and ?id_0.0 = 2]
  note two = threshold_never_validated[where a = "sample_args\<lparr>threshold := 2\<rparr>"
      and env = sample_env and t = "- (1 / 2 ^ 200)" and ?t1.0 = 1 and ?t0.0 = 2]
  from one th1 have a: "vision_filter sample_env (sample_args\<lparr>threshold := 1\<rparr>) =
      Inl ZeroDivisionError"
    "text_filter sample_text_env (sample_text_args\<lparr>threshold := 1\<rparr>) = Inl ZeroDivisionError"
    by blast+
  from one big have b: "req_logit_diff 2 = Inr NaN" by blast
  from one len have c: "classification [0, 3, 1] NegInf 1 2 = Inr True"
    "classification [0, 3, 1] NaN 1 2 = Inr False" by blast+
  from two small have d: "req_logit_diff (- (1 / 2 ^ 200)) = Inr NegInf" by blast
  from two th2 big ids
  obtain req where "req_logit_diff (threshold (sample_args\<lparr>threshold := 2\<rparr>)) = Inr req"
    "vision_filter_run sample_env (sample_args\<lparr>threshold := 2\<rparr>) =
     vision_rows sample_env (sample_args\<lparr>threshold := 2\<rparr>) req 1 2
       (metadata (sample_args\<lparr>threshold := 2\<rparr>)) init_state"
    by (simp only: th2) blast
  with b th2 have e: "vision_filter_run sample_env (sample_args\<lparr>threshold := 2\<rparr>) =
     vision_rows sample_env (sample_args\<lparr>threshold := 2\<rparr>) NaN 1 2
       (metadata (sample_args\<lparr>threshold := 2\<rparr>)) init_state"
    by simp
  from a b c d e show ?thesis by (intro conjI)
qed

lemma keen_classify_any:
  "vision_classify keen_model sample_input req (Suc 0) 2 (Some 10) (Some 1) =
     Inr \<lparr>prediction = tensor_ge 2 req, final_input = sample_input, forward_passes = 1,
          printed = []\<rparr>"
  using vision_decide_ready[of keen_model sample_input "Some 1" "[1]" 1 2 req "Some 10" 9 0]
  by (simp add: vision_classify_def keen_model_def topk_keen)

text \<open>
  C9 as the claim states it fails there: with threshold 2 the sample run does not
  abort; it classifies the first row (one classifier call, one forward pass) and
  discards it.
\<close>

theorem invalid_threshold_counterexample:
  "\<not> (0 < threshold (sample_args\<lparr>threshold := 2\<rparr>) \<and>
      threshold (sample_args\<lparr>threshold := 2\<rparr>) < 1) \<and>
   vision_filter_run sample_env (sample_args\<lparr>threshold := 2\<rparr>) =
     Inr \<lparr>results = [False, False], since_last_save = 1, missing_or_corrupted = 1,
          saved_files = [''out.tsv'' \<mapsto> \<lparr>csv_sep = ''|'', csv_header = True, csv_rows = []\<rparr>],
          console = [Saved_checkpoint ''out.tsv'', Image_missing ''gone.png''],
          classifier_calls = 1, model_calls = 1\<rparr>"
proof -
  show ?thesis
    by (simp add: vision_filter_run_def req_two first_id_def vision_row_def vision_sample_def
        vision_prompt_def getattr_def safety_save_def boolean_mask_def keen_classify_any
        sample_env_def sample_args_def init_state_def Let_def)
qed

end
